theory Spec2Isabelle
  imports Complex_Main "HOL-Library.Word"
begin

section \<open>Data\<close>

text \<open>
  Python \<open>bytes\<close> are lists of 8-bit words, Python \<open>int\<close> is \<open>int\<close>, and a Python
  \<open>str\<close> is the list of its code points. Every \<open>raise\<close> of the source, and every
  exception of a library call that the source lets through, is a value of \<open>error\<close>.
\<close>

type_synonym byte = "8 word"
type_synonym bytes = "byte list"
type_synonym pystr = "nat list"

datatype error =
    StructError            \<comment> \<open>\<open>struct.error\<close> of \<open>struct.pack\<close> and \<open>struct.unpack\<close>\<close>
  | UnicodeEncodeError     \<comment> \<open>\<open>bytes(s, "utf-8")\<close> on a lone surrogate\<close>
  | SocketTimeout          \<comment> \<open>\<open>socket.timeout\<close> of \<open>recvfrom\<close>\<close>
  | BlockingIOError        \<comment> \<open>\<open>recvfrom\<close> on a non-blocking socket with nothing queued\<close>
  | NeverReturns           \<comment> \<open>\<open>recvfrom\<close> on a blocking socket that no datagram will reach\<close>
  | TimeoutException       \<comment> \<open>the \<open>raise Exception() # timeout\<close> that ends \<open>_waitForData\<close>\<close>
  | LibraryError nat       \<comment> \<open>an exception of \<open>xml.etree\<close>, \<open>zlib\<close> or \<open>bytes.decode\<close>\<close>

text \<open>The module's message type constants that the transport reads.\<close>

definition MSP_LEADMESSAGE_MESSAGE_TYPE :: int where
  "MSP_LEADMESSAGE_MESSAGE_TYPE = 1998"

definition MSP_TELEMETRYUPDATE_MESSAGE_TYPE :: int where
  "MSP_TELEMETRYUPDATE_MESSAGE_TYPE = 1004"

definition XMLACK_MESSAGE_TYPE :: int where
  "XMLACK_MESSAGE_TYPE = 0"

section \<open>\<open>struct\<close> with the format \<open>!LQ4sLBBBB\<close>\<close>

text \<open>
  \<open>!\<close> is network byte order without padding: an unsigned field of \<open>k\<close> bytes is written
  most significant byte first. \<open>struct.pack\<close> raises \<open>struct.error\<close> on a value outside
  \<open>0 .. 256^k - 1\<close>; \<open>4s\<close> cuts a longer byte string and fills a shorter one with zero bytes.
\<close>

fun be_bytes :: "nat \<Rightarrow> int \<Rightarrow> bytes" where
  "be_bytes 0 v = []"
| "be_bytes (Suc k) v = be_bytes k (v div 256) @ [word_of_int v]"

definition be_int :: "bytes \<Rightarrow> int" where
  "be_int bs = foldl (\<lambda>acc b. acc * 256 + uint b) 0 bs"

definition pack_uint :: "nat \<Rightarrow> int \<Rightarrow> error + bytes" where
  "pack_uint k v = (if 0 \<le> v \<and> v < 256 ^ k then Inr (be_bytes k v) else Inl StructError)"

definition pack_s :: "nat \<Rightarrow> bytes \<Rightarrow> bytes" where
  "pack_s k b = take k b @ replicate (k - length b) 0"

text \<open>A decoded frame: the tuple \<open>fromBytes\<close> returns,
  \<open>(msgId, tstamp, vers, msgType, clientType, res1, compressed, res3, rdata)\<close>.\<close>

type_synonym frame = "int \<times> int \<times> bytes \<times> int \<times> int \<times> int \<times> int \<times> int \<times> bytes"

definition fr_msgId :: "frame \<Rightarrow> int" where
  "fr_msgId f = fst f"

definition fr_msgType :: "frame \<Rightarrow> int" where
  "fr_msgType f = fst (snd (snd (snd f)))"

definition fr_clientType :: "frame \<Rightarrow> int" where
  "fr_clientType f = fst (snd (snd (snd (snd f))))"

definition fr_compressed :: "frame \<Rightarrow> int" where
  "fr_compressed f = fst (snd (snd (snd (snd (snd (snd f))))))"

definition fr_data :: "frame \<Rightarrow> bytes" where
  "fr_data f = snd (snd (snd (snd (snd (snd (snd (snd f)))))))"

text \<open>\<open>struct.unpack(HEADER_FORMAT, header)\<close>: \<open>struct.error\<close> unless the buffer has
  exactly 24 bytes.\<close>

definition struct_unpack :: "bytes \<Rightarrow> error + (int \<times> int \<times> bytes \<times> int \<times> int \<times> int \<times> int \<times> int)" where
  "struct_unpack header =
     (if length header \<noteq> 24 then Inl StructError
      else Inr (be_int (take 4 header),
                be_int (take 8 (drop 4 header)),
                take 4 (drop 12 header),
                be_int (take 4 (drop 16 header)),
                uint (header ! 20), uint (header ! 21), uint (header ! 22), uint (header ! 23)))"

section \<open>\<open>OmniLogicRequest\<close>\<close>

text \<open>Python's \<open>bytes(s, "utf-8")\<close>: one to four bytes for each code point, and
  \<open>UnicodeEncodeError\<close> on a surrogate (U+D800 to U+DFFF). The code points of a Python
  string are below \<open>0x110000\<close>.\<close>

definition utf8_char :: "nat \<Rightarrow> error + bytes" where
  "utf8_char c =
     (if c < 0x80 then Inr [of_nat c]
      else if c < 0x800 then Inr [of_nat (0xC0 + c div 64), of_nat (0x80 + c mod 64)]
      else if 0xD800 \<le> c \<and> c < 0xE000 then Inl UnicodeEncodeError
      else if c < 0x10000 then
        Inr [of_nat (0xE0 + c div 4096), of_nat (0x80 + c div 64 mod 64), of_nat (0x80 + c mod 64)]
      else
        Inr [of_nat (0xF0 + c div 262144), of_nat (0x80 + c div 4096 mod 64),
             of_nat (0x80 + c div 64 mod 64), of_nat (0x80 + c mod 64)])"

fun utf8_bytes :: "pystr \<Rightarrow> error + bytes" where
  "utf8_bytes [] = Inr []"
| "utf8_bytes (c # cs) =
     (case utf8_char c of
        Inl e \<Rightarrow> Inl e
      | Inr b \<Rightarrow> (case utf8_bytes cs of Inl e \<Rightarrow> Inl e | Inr bs \<Rightarrow> Inr (b @ bs)))"

record request =
  msgId :: int
  msgType :: int
  clientType :: int
  extraData :: bytes
  version :: bytes

text \<open>\<open>"1.19".encode("ascii")\<close>\<close>

definition version_1_19 :: bytes where
  "version_1_19 = [0x31, 0x2E, 0x31, 0x39]"

text \<open>\<open>OmniLogicRequest.__init__\<close>\<close>

definition OmniLogicRequest :: "int \<Rightarrow> int \<Rightarrow> pystr \<Rightarrow> int \<Rightarrow> error + request" where
  "OmniLogicRequest mid mtype extra ctype =
     (case utf8_bytes extra of
        Inl e \<Rightarrow> Inl e
      | Inr b \<Rightarrow> Inr \<lparr>msgId = mid, msgType = mtype, clientType = ctype,
                       extraData = b, version = version_1_19\<rparr>)"

text \<open>\<open>int(x)\<close> of a float: truncation towards zero. The clock is a rational number of
  seconds; \<open>int(time.time_ns()/(10**9))\<close> is its whole part.\<close>

definition py_int :: "rat \<Rightarrow> int" where
  "py_int x = (if 0 \<le> x then \<lfloor>x\<rfloor> else \<lceil>x\<rceil>)"

text \<open>\<open>toBytes\<close>, given the clock reading at the call.\<close>

definition toBytes :: "rat \<Rightarrow> request \<Rightarrow> error + bytes" where
  "toBytes clock r =
     (case pack_uint 4 (msgId r) of Inl e \<Rightarrow> Inl e | Inr b_id \<Rightarrow>
     (case pack_uint 8 (py_int clock) of Inl e \<Rightarrow> Inl e | Inr b_ts \<Rightarrow>
     (case pack_uint 4 (msgType r) of Inl e \<Rightarrow> Inl e | Inr b_ty \<Rightarrow>
     (case pack_uint 1 (clientType r) of Inl e \<Rightarrow> Inl e | Inr b_ct \<Rightarrow>
        Inr (b_id @ b_ts @ pack_s 4 (version r) @ b_ty @ b_ct @ [0, 0, 0] @ extraData r)))))"

text \<open>\<open>fromBytes\<close>\<close>

definition fromBytes :: "bytes \<Rightarrow> error + frame" where
  "fromBytes data =
     (let header = take 24 data; rdata = drop 24 data in
      case struct_unpack header of
        Inl e \<Rightarrow> Inl e
      | Inr (mid, tstamp, vers, mtype, ctype, res1, compressed, res3) \<Rightarrow>
          Inr (mid, tstamp, vers, mtype, ctype, res1, compressed, res3, rdata))"

section \<open>The socket and the clock\<close>

text \<open>
  The world outside the program: the clock that \<open>time.time()\<close> reads (seconds, as a
  rational: float rounding is not modelled), the socket's timeout as \<open>settimeout\<close> left
  it, the datagrams on their way to the bound port (arrival time and content, in the order
  of delivery; the sender's address, which the program never reads, is left out), and the
  datagrams handed to \<open>sendto\<close> with their destination. Only a blocked \<open>recvfrom\<close>
  lets time pass.
\<close>

type_synonym addr = "string \<times> nat"

record world =
  now :: rat
  timeout :: "rat option"
  inbox :: "(rat \<times> bytes) list"
  outbox :: "(bytes \<times> addr) list"

text \<open>
  \<open>sock.recvfrom(65565)[0]\<close>. A blocking socket (\<open>None\<close>) waits for the next datagram,
  for ever if there is none. With a timeout \<open>\<tau> > 0\<close> the call returns the next datagram
  if it is there by \<open>now + \<tau>\<close>, and raises \<open>socket.timeout\<close> at \<open>now + \<tau>\<close> otherwise.
  A timeout of zero is non-blocking mode. A datagram longer than the buffer is cut.
\<close>

definition recvfrom :: "world \<Rightarrow> (error + bytes) \<times> world" where
  "recvfrom w =
     (case timeout w of
        None \<Rightarrow>
          (case inbox w of
             [] \<Rightarrow> (Inl NeverReturns, w)
           | (t, d) # rest \<Rightarrow> (Inr (take 65565 d), w\<lparr>now := max (now w) t, inbox := rest\<rparr>))
      | Some \<tau> \<Rightarrow>
          if \<tau> \<le> 0 then
            (case inbox w of
               [] \<Rightarrow> (Inl BlockingIOError, w)
             | (t, d) # rest \<Rightarrow>
                 if t \<le> now w then (Inr (take 65565 d), w\<lparr>inbox := rest\<rparr>)
                 else (Inl BlockingIOError, w))
          else
            (case inbox w of
               [] \<Rightarrow> (Inl SocketTimeout, w\<lparr>now := now w + \<tau>\<rparr>)
             | (t, d) # rest \<Rightarrow>
                 if t \<le> now w + \<tau>
                 then (Inr (take 65565 d), w\<lparr>now := max (now w) t, inbox := rest\<rparr>)
                 else (Inl SocketTimeout, w\<lparr>now := now w + \<tau>\<rparr>)))"

definition sendto :: "bytes \<Rightarrow> addr \<Rightarrow> world \<Rightarrow> world" where
  "sendto d a w = w\<lparr>outbox := outbox w @ [(d, a)]\<rparr>"

definition settimeout :: "rat \<Rightarrow> world \<Rightarrow> world" where
  "settimeout \<tau> w = w\<lparr>timeout := Some \<tau>\<rparr>"

text \<open>\<open>getSock\<close>: a new socket is in blocking mode.\<close>

definition getSock :: "world \<Rightarrow> world" where
  "getSock w = w\<lparr>timeout := None\<rparr>"

section \<open>\<open>OmniLogicAPI\<close>\<close>

record api =
  controllerIpAndPort :: addr
  senderPort :: nat
  responseTimeout :: rat

text \<open>
  The library calls whose results the transport only passes on are parameters of the
  model:
  \<^item> \<open>et_blockCount b\<close> is
    \<open>int(ET.fromstring(b).findall(".//*[@name='MsgBlockCount']")[0].text)\<close>;
  \<^item> \<open>zlib_decompress\<close> is \<open>zlib.decompress\<close>;
  \<^item> \<open>utf8_decode b\<close> is \<open>b.decode('utf-8')\<close>;
  \<^item> \<open>et_tostring_Ack\<close> is the string \<open>ET.tostring\<close> returns for the
    \<open>Request\<close> element with the child \<open>Name\<close> of text \<open>Ack\<close>.
\<close>

record pylib =
  et_blockCount :: "bytes \<Rightarrow> error + int"
  zlib_decompress :: "bytes \<Rightarrow> error + bytes"
  utf8_decode :: "bytes \<Rightarrow> error + pystr"
  et_tostring_Ack :: pystr

text \<open>\<open>_recv\<close>\<close>

definition recv :: "world \<Rightarrow> (error + frame) \<times> world" where
  "recv w =
     (case recvfrom w of
        (Inl e, w') \<Rightarrow> (Inl e, w')
      | (Inr resp, w') \<Rightarrow> (fromBytes resp, w'))"

text \<open>\<open>_sendAck\<close>\<close>

definition sendAck :: "pylib \<Rightarrow> api \<Rightarrow> int \<Rightarrow> world \<Rightarrow> (error + unit) \<times> world" where
  "sendAck lib self mid w =
     (let reqBody = et_tostring_Ack lib in
      case OmniLogicRequest mid XMLACK_MESSAGE_TYPE reqBody 0 of
        Inl e \<Rightarrow> (Inl e, w)
      | Inr request \<Rightarrow>
          (case toBytes (now w) request of
             Inl e \<Rightarrow> (Inl e, w)
           | Inr b \<Rightarrow> (Inr (), sendto b (controllerIpAndPort self) w)))"

text \<open>
  \<open>_waitForData\<close>: the \<open>while\<close> loop, with \<open>respMsgId\<close> and \<open>start\<close> as arguments. Only
  \<open>socket.timeout\<close> is caught; any other exception of \<open>_recv\<close> leaves the loop.
\<close>

function waitForData_loop :: "api \<Rightarrow> int \<Rightarrow> rat \<Rightarrow> int \<Rightarrow> world \<Rightarrow> (error + frame) \<times> world" where
  "waitForData_loop self mid start respMsgId w =
     (if respMsgId \<noteq> mid \<and> now w < start + responseTimeout self then
        (case recv w of
           (Inr f, w') \<Rightarrow>
             if mid = fr_msgId f then (Inr f, w')
             else waitForData_loop self mid start (fr_msgId f) w'
         | (Inl e, w') \<Rightarrow>
             if e = SocketTimeout then waitForData_loop self mid start respMsgId w'
             else (Inl e, w'))
      else (Inl TimeoutException, w))"
  by pat_completeness auto

lemma recv_Inr_inbox:
  "recv w = (Inr f, w') \<Longrightarrow> length (inbox w') < length (inbox w)"
  by (auto simp: recv_def recvfrom_def
      split: option.splits list.splits if_splits prod.splits sum.splits)

lemma recv_SocketTimeout:
  "recv w = (Inl SocketTimeout, w') \<Longrightarrow>
     \<exists>\<tau>. timeout w = Some \<tau> \<and> 0 < \<tau> \<and> w' = w\<lparr>now := now w + \<tau>\<rparr>"
  by (auto simp: recv_def recvfrom_def fromBytes_def struct_unpack_def Let_def
      split: option.splits list.splits if_splits prod.splits sum.splits)

lemma slices_left_decrease:
  fixes d :: rat
  assumes "0 < \<tau>" and "n < d"
  shows "nat \<lceil>(d - (n + \<tau>)) / \<tau>\<rceil> < nat \<lceil>(d - n) / \<tau>\<rceil>"
proof -
  have "(d - (n + \<tau>)) / \<tau> = (d - n) / \<tau> - 1"
    using assms by (simp add: field_simps)
  then have "\<lceil>(d - (n + \<tau>)) / \<tau>\<rceil> = \<lceil>(d - n) / \<tau>\<rceil> - 1"
    by simp
  moreover have "0 < (d - n) / \<tau>"
    using assms by simp
  then have "0 < \<lceil>(d - n) / \<tau>\<rceil>"
    by (simp add: less_ceiling_iff)
  ultimately show ?thesis
    by simp
qed

text \<open>
  The loop ends: a frame shortens the queue of datagrams, and a \<open>socket.timeout\<close> moves
  the clock one slice closer to the deadline.
\<close>

termination waitForData_loop
proof (relation "measures
    [\<lambda>(self, mid, start, r, w). length (inbox w),
     \<lambda>(self, mid, start, r, w).
        nat \<lceil>(start + responseTimeout self - now w) /
             (case timeout w of None \<Rightarrow> 1 | Some \<tau> \<Rightarrow> \<tau>)\<rceil>]", goal_cases)
  case 1
  show ?case by simp
next
  case (2 self mid start r w x w' e)
  then obtain \<tau> where "timeout w = Some \<tau>" "0 < \<tau>" "w' = w\<lparr>now := now w + \<tau>\<rparr>"
    using recv_SocketTimeout [of w w'] by auto
  with 2 show ?case
    using slices_left_decrease [of \<tau> "now w" "start + responseTimeout self"] by simp
next
  case (3 self mid start r w x w' f)
  then show ?case
    using recv_Inr_inbox [of w f w'] by simp
qed

declare waitForData_loop.simps [simp del]

text \<open>\<open>_waitForData\<close>\<close>

definition waitForData :: "api \<Rightarrow> int \<Rightarrow> world \<Rightarrow> (error + frame) \<times> world" where
  "waitForData self mid w =
     (let respMsgId = - 1;
          start = now w;
          w1 = settimeout (1 / 2) w
      in waitForData_loop self mid start respMsgId w1)"

text \<open>
  \<open>_sendRequest\<close>. The draw of \<open>random.randrange(2**32)\<close> is the argument \<open>rnd\<close>. The
  frame that ends the wait is dropped: the caller gets \<open>None\<close>.
\<close>

definition sendRequest :: "api \<Rightarrow> int \<Rightarrow> int \<Rightarrow> pystr \<Rightarrow> world \<Rightarrow> (error + unit) \<times> world" where
  "sendRequest self rnd mtype extra w =
     (let mid = rnd;
          ctype = (if extra \<noteq> [] then 0 else 1);
          extra' = extra @ (if extra \<noteq> [] then [0] else [])
      in case OmniLogicRequest mid mtype extra' ctype of
           Inl e \<Rightarrow> (Inl e, w)
         | Inr request \<Rightarrow>
             (case toBytes (now w) request of
                Inl e \<Rightarrow> (Inl e, w)
              | Inr b \<Rightarrow>
                  (case waitForData self mid (sendto b (controllerIpAndPort self) w) of
                     (Inl e, w') \<Rightarrow> (Inl e, w')
                   | (Inr f, w') \<Rightarrow> (Inr (), w'))))"

text \<open>
  \<open>_receiveFile\<close>, the \<open>for _ in range(blockCount)\<close> loop with \<open>retval\<close> as an
  argument.
\<close>

fun receiveFile_blocks :: "pylib \<Rightarrow> api \<Rightarrow> nat \<Rightarrow> bytes \<Rightarrow> world \<Rightarrow> (error + bytes) \<times> world" where
  "receiveFile_blocks lib self 0 retval w = (Inr retval, w)"
| "receiveFile_blocks lib self (Suc n) retval w =
     (case recv w of
        (Inl e, w1) \<Rightarrow> (Inl e, w1)
      | (Inr f, w1) \<Rightarrow>
          (case sendAck lib self (fr_msgId f) w1 of
             (Inl e, w2) \<Rightarrow> (Inl e, w2)
           | (Inr u, w2) \<Rightarrow> receiveFile_blocks lib self n (retval @ drop 8 (fr_data f)) w2))"

text \<open>
  \<open>_receiveFile\<close> up to the end of its \<open>if\<close>/\<open>elif\<close>/\<open>else\<close>: the first frame, its ack,
  and the buffer \<open>retval\<close> with the flag \<open>msgCompressed\<close>.
\<close>

definition receiveFile_buffer :: "pylib \<Rightarrow> api \<Rightarrow> world \<Rightarrow> (error + bool \<times> bytes) \<times> world" where
  "receiveFile_buffer lib self w =
     (case recv w of
        (Inl e, w1) \<Rightarrow> (Inl e, w1)
      | (Inr (mid, tstamp, vers, mtype, ctype, res1, compressed, res3, data), w1) \<Rightarrow>
          (case sendAck lib self mid w1 of
             (Inl e, w2) \<Rightarrow> (Inl e, w2)
           | (Inr u, w2) \<Rightarrow>
               (let msgCompressed =
                      (compressed = 1 \<or> mtype \<in> set [MSP_TELEMETRYUPDATE_MESSAGE_TYPE])
                in if mtype = MSP_LEADMESSAGE_MESSAGE_TYPE then
                     (case et_blockCount lib (butlast data) of
                        Inl e \<Rightarrow> (Inl e, w2)
                      | Inr blockCount \<Rightarrow>
                          (case receiveFile_blocks lib self (nat blockCount) [] w2 of
                             (Inl e, w3) \<Rightarrow> (Inl e, w3)
                           | (Inr retval, w3) \<Rightarrow> (Inr (msgCompressed, retval), w3)))
                   else if msgCompressed then (Inr (msgCompressed, data), w2)
                   else (Inr (msgCompressed, drop 8 data), w2))))"

text \<open>\<open>_receiveFile\<close>: \<open>bytes.fromhex(retval.hex())\<close> is \<open>retval\<close>.\<close>

definition receiveFile :: "pylib \<Rightarrow> api \<Rightarrow> world \<Rightarrow> (error + pystr) \<times> world" where
  "receiveFile lib self w =
     (case receiveFile_buffer lib self w of
        (Inl e, w') \<Rightarrow> (Inl e, w')
      | (Inr (msgCompressed, retval), w') \<Rightarrow>
          (case (if msgCompressed then zlib_decompress lib retval else Inr retval) of
             Inl e \<Rightarrow> (Inl e, w')
           | Inr retval' \<Rightarrow>
               (case utf8_decode lib retval' of
                  Inl e \<Rightarrow> (Inl e, w')
                | Inr txt \<Rightarrow> (Inr txt, w'))))"

text \<open>
  The body that \<open>getAlarmList\<close>, \<open>getConfig\<close>, \<open>getFilterDiagnostics\<close>, \<open>getLogConfig\<close>
  and \<open>getTelemetry\<close> share: a new socket, \<open>_sendRequest\<close> with the method's message type
  and request body, then \<open>_receiveFile\<close> on the same socket.
\<close>

definition request_reply :: "pylib \<Rightarrow> api \<Rightarrow> int \<Rightarrow> int \<Rightarrow> pystr \<Rightarrow> world \<Rightarrow> (error + pystr) \<times> world" where
  "request_reply lib self rnd mtype reqBody w =
     (let sock = getSock w in
      case sendRequest self rnd mtype reqBody sock of
        (Inl e, w1) \<Rightarrow> (Inl e, w1)
      | (Inr u, w1) \<Rightarrow> receiveFile lib self w1)"

section \<open>Frames of other exchanges\<close>

text \<open>A queued datagram that decodes to a frame whose message id is not \<open>mid\<close>.\<close>

definition stray :: "int \<Rightarrow> rat \<times> bytes \<Rightarrow> bool" where
  "stray mid p = (case fromBytes (take 65565 (snd p)) of Inl e \<Rightarrow> False | Inr f \<Rightarrow> fr_msgId f \<noteq> mid)"

text \<open>The payload of a queued datagram without its first 8 bytes, as the block loop
  appends it.\<close>

definition block_data :: "rat \<times> bytes \<Rightarrow> bytes" where
  "block_data p = drop 8 (drop 24 (take 65565 (snd p)))"

text \<open>
  A sent datagram \<open>q\<close> acknowledges a queued datagram \<open>p\<close>: it goes to the controller and
  decodes to a frame with the message id of \<open>p\<close>, the message type \<open>XMLACK_MESSAGE_TYPE\<close>,
  the client type 0 and the encoded \<open>Ack\<close> request body as payload.
\<close>

definition acks :: "pylib \<Rightarrow> api \<Rightarrow> rat \<times> bytes \<Rightarrow> bytes \<times> addr \<Rightarrow> bool" where
  "acks lib self p q =
     (case (fromBytes (take 65565 (snd p)), fromBytes (fst q), utf8_bytes (et_tostring_Ack lib)) of
        (Inr f, Inr a, Inr body) \<Rightarrow>
          fr_msgId a = fr_msgId f \<and> fr_msgType a = XMLACK_MESSAGE_TYPE \<and>
          fr_clientType a = 0 \<and> fr_data a = body \<and> snd q = controllerIpAndPort self
      | _ \<Rightarrow> False)"

text \<open>
  The sent datagrams \<open>as\<close> acknowledge the datagrams \<open>ds\<close> taken from the queue, one ack
  each and in the same order. Only the last datagram taken may be without its ack, when
  decoding it or encoding its ack raised \<open>struct.error\<close> or \<open>UnicodeEncodeError\<close> and
  that exception is the result \<open>res\<close> of the call.
\<close>

definition acked :: "pylib \<Rightarrow> api \<Rightarrow> error + 'a \<Rightarrow> (rat \<times> bytes) list \<Rightarrow> (bytes \<times> addr) list \<Rightarrow> bool" where
  "acked lib self res ds as =
     (list_all2 (acks lib self) ds as \<or>
      ds \<noteq> [] \<and> list_all2 (acks lib self) (butlast ds) as \<and>
      (res = Inl StructError \<or> res = Inl UnicodeEncodeError))"

section \<open>Sample data\<close>

text \<open>
  The controller of the module's \<open>__main__\<close> block, with response timeouts of 5 and of 2
  seconds, and datagrams as a controller sends them: an \<open>ACK\<close> (type 1002) with the id 5,
  a telemetry update (type 1004) with the id 7 and an \<open>ACK\<close> with the id 9.
\<close>

definition api0 :: api where
  "api0 = \<lparr>controllerIpAndPort = (''192.168.1.50'', 10444), senderPort = 10444,
           responseTimeout = 5\<rparr>"

definition dg_ack5 :: bytes where
  "dg_ack5 = [0, 0, 0, 5,  0, 0, 0, 0, 0, 0, 0, 0,  0x31, 0x2E, 0x31, 0x39,
              0, 0, 3, 0xEA,  0, 0, 0, 0]"

definition dg_stray7 :: bytes where
  "dg_stray7 = [0, 0, 0, 7,  0, 0, 0, 0, 0, 0, 0, 0,  0x31, 0x2E, 0x31, 0x39,
                0, 0, 3, 0xEC,  0, 0, 0, 0,  0x41]"

definition dg_stray9 :: bytes where
  "dg_stray9 = [0, 0, 0, 9,  0, 0, 0, 0, 0, 0, 0, 0,  0x31, 0x2E, 0x31, 0x39,
                0, 0, 3, 0xEA,  0, 0, 0, 0]"

definition w_strays :: world where
  "w_strays = \<lparr>now = 100, timeout = None,
                inbox = [(1001 / 10, dg_stray7), (1009 / 10, dg_stray9), (101, dg_ack5)],
                outbox = []\<rparr>"

definition api2 :: api where
  "api2 = \<lparr>controllerIpAndPort = (''192.168.1.50'', 10444), senderPort = 10444,
           responseTimeout = 2\<rparr>"

definition w_late :: world where
  "w_late = \<lparr>now = 100, timeout = None,
              inbox = [(1001 / 10, dg_stray7), (103, dg_ack5)], outbox = []\<rparr>"

text \<open>A bodiless telemetry request with the id \<open>0x12345678\<close> and the payload \<open>hi\<close>.\<close>

definition req0 :: request where
  "req0 = \<lparr>msgId = 305419896, msgType = 300, clientType = 1, extraData = [0x68, 0x69],
           version = version_1_19\<rparr>"

text \<open>
  The library at the sample inputs: \<open>et_blockCount\<close>, \<open>zlib_decompress\<close> and
  \<open>et_tostring_Ack\<close> take the values Python 3.11 returns there (\<open>zlib_OK\<close> is
  \<open>zlib.compress(b"OK")\<close>), and \<open>utf8_decode\<close> decodes ASCII.
\<close>

definition lead_xml :: bytes where
  "lead_xml = map of_char ''<R><P name='MsgBlockCount'>3</P></R>''"

definition zlib_OK :: bytes where
  "zlib_OK = [0x78, 0x9C, 0xF3, 0xF7, 0x06, 0x00, 0x00, 0xEB, 0x00, 0x9B]"

definition ack_xml :: pystr where
  "ack_xml = map of_char
     (''<?xml version='1.0' encoding='utf-8'?>'' @ [CHR 0x0A] @
      ''<Request xmlns='' @ [CHR 0x22] @ ''http://nextgen.hayward.com/api'' @ [CHR 0x22] @
      ''><Name>Ack</Name></Request>'')"

definition lib0 :: pylib where
  "lib0 = \<lparr>et_blockCount = (\<lambda>b. if b = lead_xml then Inr 3 else Inl (LibraryError 0)),
            zlib_decompress = (\<lambda>b. if b = zlib_OK then Inr [0x4F, 0x4B] else Inl (LibraryError 1)),
            utf8_decode = (\<lambda>b. if list_all (\<lambda>x. x < 0x80) b then Inr (map unat b)
                               else Inl (LibraryError 2)),
            et_tostring_Ack = ack_xml\<rparr>"

text \<open>
  More datagrams of the controller: a short reply with the id 7 (an 8-byte sub-header, then
  \<open>OK\<close>), a reply with the compressed flag set, a lead message announcing three blocks,
  and three block messages (type 1999) that carry \<open>He\<close>, \<open>ll\<close> and \<open>o!\<close>.
\<close>

definition dg_reply7 :: bytes where
  "dg_reply7 = [0, 0, 0, 7,  0, 0, 0, 0, 0, 0, 0, 0,  0x31, 0x2E, 0x31, 0x39,
                0, 0, 3, 0xEB,  0, 0, 0, 0,  0, 0, 0, 0, 0, 0, 0, 0,  0x4F, 0x4B]"

definition dg_zip8 :: bytes where
  "dg_zip8 = [0, 0, 0, 8,  0, 0, 0, 0, 0, 0, 0, 0,  0x31, 0x2E, 0x31, 0x39,
              0, 0, 3, 0xEB,  0, 0, 1, 0] @ zlib_OK"

definition dg_lead11 :: bytes where
  "dg_lead11 = [0, 0, 0, 11,  0, 0, 0, 0, 0, 0, 0, 0,  0x31, 0x2E, 0x31, 0x39,
                0, 0, 7, 0xCE,  0, 0, 0, 0] @ lead_xml @ [0]"

definition dg_block12 :: bytes where
  "dg_block12 = [0, 0, 0, 12,  0, 0, 0, 0, 0, 0, 0, 0,  0x31, 0x2E, 0x31, 0x39,
                 0, 0, 7, 0xCF,  0, 0, 0, 0,  0, 0, 0, 0, 0, 0, 0, 1,  0x48, 0x65]"

definition dg_block13 :: bytes where
  "dg_block13 = [0, 0, 0, 13,  0, 0, 0, 0, 0, 0, 0, 0,  0x31, 0x2E, 0x31, 0x39,
                 0, 0, 7, 0xCF,  0, 0, 0, 0,  0, 0, 0, 0, 0, 0, 0, 2,  0x6C, 0x6C]"

definition dg_block14 :: bytes where
  "dg_block14 = [0, 0, 0, 14,  0, 0, 0, 0, 0, 0, 0, 0,  0x31, 0x2E, 0x31, 0x39,
                 0, 0, 7, 0xCF,  0, 0, 0, 0,  0, 0, 0, 0, 0, 0, 0, 3,  0x6F, 0x21]"

text \<open>
  Worlds: before an exchange whose request gets the id 5, and after the wait of such an
  exchange, with a lead message and its blocks, a compressed reply, or two datagrams already
  queued.
\<close>

definition w_exchange :: world where
  "w_exchange = \<lparr>now = 100, timeout = None,
                  inbox = [(1002 / 10, dg_ack5), (1003 / 10, dg_reply7)], outbox = []\<rparr>"

definition w_lead :: world where
  "w_lead = \<lparr>now = 1002 / 10, timeout = Some (1 / 2),
              inbox = [(1003 / 10, dg_lead11), (1004 / 10, dg_block12),
                       (1005 / 10, dg_block13), (1006 / 10, dg_block14)],
              outbox = []\<rparr>"

definition w_zip :: world where
  "w_zip = \<lparr>now = 1002 / 10, timeout = Some (1 / 2),
             inbox = [(1003 / 10, dg_zip8)], outbox = []\<rparr>"

definition w_queued :: world where
  "w_queued = \<lparr>now = 101, timeout = Some (1 / 2),
                inbox = [(1004 / 10, dg_stray7), (1005 / 10, dg_block12)], outbox = []\<rparr>"

text \<open>A world before an exchange that is answered by a lead message and three blocks,
  after a frame of another exchange.\<close>

definition w_lead_exchange :: world where
  "w_lead_exchange = \<lparr>now = 100, timeout = None,
      inbox = [(1001 / 10, dg_stray9), (1002 / 10, dg_ack5), (1003 / 10, dg_lead11),
               (1004 / 10, dg_block12), (1005 / 10, dg_block13), (1006 / 10, dg_block14)],
      outbox = []\<rparr>"

text \<open>A telemetry update (type 1004) with the id 8, the compressed byte 0 and the payload
  \<open>zlib_OK\<close>.\<close>

definition dg_tel8 :: bytes where
  "dg_tel8 = [0, 0, 0, 8,  0, 0, 0, 0, 0, 0, 0, 0,  0x31, 0x2E, 0x31, 0x39,
              0, 0, 3, 0xEC,  0, 0, 0, 0] @ zlib_OK"

text \<open>
  Worlds in which the datagrams of the response are queued when \<open>_receiveFile\<close> starts: a
  lead message with its three blocks, the telemetry update, and a telemetry update whose
  payload is not compressed data.
\<close>

definition w_lead_queued :: world where
  "w_lead_queued = \<lparr>now = 101, timeout = Some (1 / 2),
      inbox = [(1003 / 10, dg_lead11), (1004 / 10, dg_block12),
               (1005 / 10, dg_block13), (1006 / 10, dg_block14)],
      outbox = []\<rparr>"

definition w_tel :: world where
  "w_tel = \<lparr>now = 101, timeout = Some (1 / 2), inbox = [(1003 / 10, dg_tel8)], outbox = []\<rparr>"

definition w_garbled :: world where
  "w_garbled = \<lparr>now = 101, timeout = Some (1 / 2), inbox = [(1003 / 10, dg_stray7)],
                 outbox = []\<rparr>"

text \<open>
  Worlds before an exchange whose request gets the id 5: the ack arrives 0.05 seconds after
  a deadline of 102; the reply arrives 0.8 seconds after the ack; the third block never
  arrives.
\<close>

definition w_gap :: world where
  "w_gap = \<lparr>now = 100, timeout = None,
             inbox = [(1003 / 10, dg_stray7), (2041 / 20, dg_ack5)], outbox = []\<rparr>"

definition w_slow :: world where
  "w_slow = \<lparr>now = 100, timeout = None,
              inbox = [(1002 / 10, dg_ack5), (101, dg_reply7)], outbox = []\<rparr>"

definition w_lost :: world where
  "w_lost = \<lparr>now = 100, timeout = None,
      inbox = [(1002 / 10, dg_ack5), (1003 / 10, dg_lead11), (1004 / 10, dg_block12),
               (1005 / 10, dg_block13)],
      outbox = []\<rparr>"

section \<open>The codec\<close>

lemma be_int_snoc: "be_int (bs @ [b]) = be_int bs * 256 + uint b"
  by (simp add: be_int_def)

lemma length_be_bytes: "length (be_bytes k v) = k"
  by (induction k arbitrary: v) simp_all

lemma be_int_be_bytes: "0 \<le> v \<Longrightarrow> v < 256 ^ k \<Longrightarrow> be_int (be_bytes k v) = v"
proof (induction k arbitrary: v)
  case 0
  then show ?case by (simp add: be_int_def)
next
  case (Suc k)
  have low: "uint (word_of_int v :: byte) = v mod 256"
    by (simp add: uint_word_of_int)
  have "0 \<le> v div 256" and "v div 256 < 256 ^ k"
    using Suc.prems by (simp_all add: pos_imp_zdiv_nonneg_iff)
  then have "be_int (be_bytes k (v div 256)) = v div 256"
    by (rule Suc.IH)
  then show ?case
    by (simp add: be_int_snoc low)
qed

lemma be_bytes_1: "be_bytes 1 v = [word_of_int v]"
  by simp

lemma fromBytes_short: "length data < 24 \<Longrightarrow> fromBytes data = Inl StructError"
  by (simp add: fromBytes_def struct_unpack_def)

lemma fromBytes_long:
  "24 \<le> length data \<Longrightarrow>
   fromBytes data =
     Inr (be_int (take 4 data), be_int (take 8 (drop 4 data)), take 4 (drop 12 data),
          be_int (take 4 (drop 16 data)),
          uint (data ! 20), uint (data ! 21), uint (data ! 22), uint (data ! 23),
          drop 24 data)"
  by (simp add: fromBytes_def struct_unpack_def Let_def min_def take_drop)

lemma toBytes_ok:
  assumes "0 \<le> msgId r" "msgId r < 2 ^ 32" "0 \<le> msgType r" "msgType r < 2 ^ 32"
    "0 \<le> clientType r" "clientType r < 2 ^ 8" "0 \<le> py_int clock" "py_int clock < 2 ^ 64"
  shows "toBytes clock r =
     Inr (be_bytes 4 (msgId r) @ be_bytes 8 (py_int clock) @ pack_s 4 (version r) @
          be_bytes 4 (msgType r) @ [word_of_int (clientType r), 0, 0, 0] @ extraData r)"
  using assms by (simp add: toBytes_def pack_uint_def be_bytes_1)

lemma length_pack_s: "length (pack_s k b) = k"
  by (simp add: pack_s_def)

lemma fromBytes_layout:
  assumes "length a = 4" "length t = 8" "length v = 4" "length m = 4"
  shows "fromBytes (a @ t @ v @ m @ [c, r1, z, r3] @ p) =
     Inr (be_int a, be_int t, v, be_int m, uint c, uint r1, uint z, uint r3, p)"
  using assms by (simp add: fromBytes_long nth_append)

lemma be_bytes_numeral:
  "be_bytes (numeral n) v = be_bytes (pred_numeral n) (v div 256) @ [word_of_int v]"
  by (simp add: numeral_eq_Suc)

text \<open>
  Claim C1. For every request whose message id and message type fit 32 bits, whose client
  type fits 8 bits and whose version has 4 bytes, encoded when the whole seconds of the clock
  fit 64 bits: \<open>toBytes\<close> succeeds, the header is the first 24 bytes of the result in
  big-endian order, the payload follows unchanged, and \<open>fromBytes\<close> of the result gives
  back the message id, the timestamp written, the version, the message type, the client
  type, the three zero bytes and the payload.
\<close>

theorem decode_encode_roundtrip:
  assumes "0 \<le> msgId r" and "msgId r < 2 ^ 32"
    and "0 \<le> py_int clock" and "py_int clock < 2 ^ 64"
    and "length (version r) = 4"
    and "0 \<le> msgType r" and "msgType r < 2 ^ 32"
    and "0 \<le> clientType r" and "clientType r < 2 ^ 8"
  shows "\<exists>b. toBytes clock r = Inr b \<and>
           length b = 24 + length (extraData r) \<and>
           take 24 b = be_bytes 4 (msgId r) @ be_bytes 8 (py_int clock) @ version r @
                       be_bytes 4 (msgType r) @ [word_of_int (clientType r), 0, 0, 0] \<and>
           drop 24 b = extraData r \<and>
           fromBytes b = Inr (msgId r, py_int clock, version r, msgType r, clientType r,
                              0, 0, 0, extraData r)"
proof -
  define h where "h = be_bytes 4 (msgId r) @ be_bytes 8 (py_int clock) @ version r @
            be_bytes 4 (msgType r) @ [word_of_int (clientType r), 0, 0, 0]"
  have v: "pack_s 4 (version r) = version r"
    using assms(5) by (simp add: pack_s_def)
  have enc: "toBytes clock r = Inr (h @ extraData r)"
    using assms by (simp add: toBytes_ok v h_def)
  have len: "length h = 24"
    using assms(5) by (simp add: length_be_bytes h_def)
  have ct: "uint (word_of_int (clientType r) :: byte) = clientType r"
    using assms(8,9) by (simp add: uint_word_of_int)
  have "fromBytes (h @ extraData r) =
          Inr (be_int (be_bytes 4 (msgId r)), be_int (be_bytes 8 (py_int clock)), version r,
               be_int (be_bytes 4 (msgType r)), uint (word_of_int (clientType r) :: byte),
               uint (0 :: byte), uint (0 :: byte), uint (0 :: byte), extraData r)"
    using fromBytes_layout [of "be_bytes 4 (msgId r)" "be_bytes 8 (py_int clock)" "version r"
        "be_bytes 4 (msgType r)" "word_of_int (clientType r)" 0 0 0 "extraData r"] assms(5)
    by (simp add: length_be_bytes h_def)
  then have dec: "fromBytes (h @ extraData r) =
          Inr (msgId r, py_int clock, version r, msgType r, clientType r, 0, 0, 0, extraData r)"
    using assms by (simp add: be_int_be_bytes ct)
  have "length (h @ extraData r) = 24 + length (extraData r)"
    and "take 24 (h @ extraData r) = h" and "drop 24 (h @ extraData r) = extraData r"
    using len by simp_all
  with enc dec show ?thesis
    unfolding h_def by blast
qed

theorem decode_encode_roundtrip_witness:
  "toBytes 1700000000 req0 =
     Inr [0x12, 0x34, 0x56, 0x78,  0, 0, 0, 0, 0x65, 0x53, 0xF1, 0,  0x31, 0x2E, 0x31, 0x39,
          0, 0, 1, 0x2C,  1, 0, 0, 0,  0x68, 0x69] \<and>
   fromBytes [0x12, 0x34, 0x56, 0x78,  0, 0, 0, 0, 0x65, 0x53, 0xF1, 0,  0x31, 0x2E, 0x31, 0x39,
          0, 0, 1, 0x2C,  1, 0, 0, 0,  0x68, 0x69] =
     Inr (305419896, 1700000000, version_1_19, 300, 1, 0, 0, 0, [0x68, 0x69])"
proof -
  have enc: "toBytes 1700000000 req0 =
     Inr [0x12, 0x34, 0x56, 0x78,  0, 0, 0, 0, 0x65, 0x53, 0xF1, 0,  0x31, 0x2E, 0x31, 0x39,
          0, 0, 1, 0x2C,  1, 0, 0, 0,  0x68, 0x69]"
    by (simp add: req0_def version_1_19_def py_int_def toBytes_def pack_uint_def pack_s_def
        be_bytes_numeral)
  have "\<exists>b. toBytes 1700000000 req0 = Inr b \<and>
          fromBytes b = Inr (305419896, 1700000000, version_1_19, 300, 1, 0, 0, 0, [0x68, 0x69])"
    using decode_encode_roundtrip [of req0 1700000000]
    by (simp add: req0_def version_1_19_def py_int_def, blast)
  with enc show ?thesis
    by simp
qed

text \<open>
  Claim C6. \<open>fromBytes\<close> of fewer than 24 bytes fails with \<open>struct.error\<close> (the
  specification's \<open>MalformedFrame\<close>); of 24 bytes or more it succeeds, the header fields
  read from the first 24 bytes and the payload being the bytes from offset 24 on.
\<close>

theorem fromBytes_length_split:
  "(length data < 24 \<longrightarrow> fromBytes data = Inl StructError) \<and>
   (24 \<le> length data \<longrightarrow>
      fromBytes data =
        Inr (be_int (take 4 data), be_int (take 8 (drop 4 data)), take 4 (drop 12 data),
             be_int (take 4 (drop 16 data)),
             uint (data ! 20), uint (data ! 21), uint (data ! 22), uint (data ! 23),
             drop 24 data))"
  using fromBytes_short fromBytes_long by blast


theorem fromBytes_length_split_witness:
  "fromBytes [0x12, 0x34, 0x56] = Inl StructError \<and>
   fromBytes [0, 0, 0, 5,  0, 0, 0, 0, 0, 0, 0, 9,  0x31, 0x2E, 0x31, 0x39,
              0, 0, 3, 0xEA,  0, 0, 1, 0,  0x41] =
     Inr (5, 9, [0x31, 0x2E, 0x31, 0x39], 1002, 0, 0, 1, 0, [0x41])"
  using fromBytes_length_split [of "[0x12, 0x34, 0x56]"]
    fromBytes_length_split [of "[0, 0, 0, 5,  0, 0, 0, 0, 0, 0, 0, 9,  0x31, 0x2E, 0x31, 0x39,
              0, 0, 3, 0xEA,  0, 0, 1, 0,  0x41]"]
  by (simp add: be_int_def)

section \<open>The wait loop\<close>

lemma recv_datagram:
  "timeout w = Some \<tau> \<Longrightarrow> 0 < \<tau> \<Longrightarrow> inbox w = (t, d) # rest \<Longrightarrow> t \<le> now w + \<tau> \<Longrightarrow>
   recv w = (fromBytes (take 65565 d), w\<lparr>now := max (now w) t, inbox := rest\<rparr>)"
  by (simp add: recv_def recvfrom_def)

lemma recv_wait:
  "timeout w = Some \<tau> \<Longrightarrow> 0 < \<tau> \<Longrightarrow> inbox w = (t, d) # rest \<Longrightarrow> now w + \<tau> < t \<Longrightarrow>
   recv w = (Inl SocketTimeout, w\<lparr>now := now w + \<tau>\<rparr>)"
  by (simp add: recv_def recvfrom_def)

lemma recv_idle:
  "timeout w = Some \<tau> \<Longrightarrow> 0 < \<tau> \<Longrightarrow> inbox w = [] \<Longrightarrow>
   recv w = (Inl SocketTimeout, w\<lparr>now := now w + \<tau>\<rparr>)"
  by (simp add: recv_def recvfrom_def)

lemma loop_match:
  "r \<noteq> mid \<Longrightarrow> now w < start + responseTimeout self \<Longrightarrow> recv w = (Inr f, w') \<Longrightarrow>
   fr_msgId f = mid \<Longrightarrow> waitForData_loop self mid start r w = (Inr f, w')"
  by (simp add: waitForData_loop.simps [of self mid start r w])

lemma loop_stray:
  "r \<noteq> mid \<Longrightarrow> now w < start + responseTimeout self \<Longrightarrow> recv w = (Inr f, w') \<Longrightarrow>
   fr_msgId f \<noteq> mid \<Longrightarrow>
   waitForData_loop self mid start r w = waitForData_loop self mid start (fr_msgId f) w'"
  by (simp add: waitForData_loop.simps [of self mid start r w])

lemma loop_timeout:
  "r \<noteq> mid \<Longrightarrow> now w < start + responseTimeout self \<Longrightarrow> recv w = (Inl SocketTimeout, w') \<Longrightarrow>
   waitForData_loop self mid start r w = waitForData_loop self mid start r w'"
  by (simp add: waitForData_loop.simps [of self mid start r w])

lemma loop_exit:
  "\<not> (r \<noteq> mid \<and> now w < start + responseTimeout self) \<Longrightarrow>
   waitForData_loop self mid start r w = (Inl TimeoutException, w)"
  by (auto simp: waitForData_loop.simps [of self mid start r w])

lemma loop_finds_match:
  assumes "timeout w = Some \<tau>" and "0 < \<tau>"
    and "inbox w = strays @ (t, d) # rest"
    and "list_all (\<lambda>p. fst p \<le> t \<and> stray mid p) strays"
    and "fromBytes (take 65565 d) = Inr f" and "fr_msgId f = mid"
    and "r \<noteq> mid" and "now w < start + responseTimeout self"
    and "t < start + responseTimeout self"
  shows "waitForData_loop self mid start r w = (Inr f, w\<lparr>now := max (now w) t, inbox := rest\<rparr>)"
  using assms
proof (induction self mid start r w arbitrary: strays rule: waitForData_loop.induct)
  case (1 self mid start r w)
  have cond: "r \<noteq> mid \<and> now w < start + responseTimeout self"
    using "1.prems" by simp
  have tick: "waitForData_loop self mid start r w =
                (Inr f, w\<lparr>now := max (now w) t, inbox := rest\<rparr>)"
    if late: "now w + \<tau> < t" and rv: "recv w = (Inl SocketTimeout, w\<lparr>now := now w + \<tau>\<rparr>)"
  proof -
    let ?w = "w\<lparr>now := now w + \<tau>\<rparr>"
    have "waitForData_loop self mid start r ?w = (Inr f, ?w\<lparr>now := max (now ?w) t, inbox := rest\<rparr>)"
      using "1.IH"(1) [OF cond rv [symmetric] refl refl, of strays] "1.prems" late by simp
    moreover have "max (now w + \<tau>) t = max (now w) t"
      using late \<open>0 < \<tau>\<close> by simp
    ultimately show ?thesis
      using loop_timeout [OF _ _ rv, of r mid start self] cond by simp
  qed
  show ?case
  proof (cases strays)
    case Nil
    then have ib: "inbox w = (t, d) # rest"
      using "1.prems" by simp
    show ?thesis
    proof (cases "t \<le> now w + \<tau>")
      case True
      then have "recv w = (Inr f, w\<lparr>now := max (now w) t, inbox := rest\<rparr>)"
        using recv_datagram [OF "1.prems"(1,2) ib] "1.prems"(5) by simp
      then show ?thesis
        using loop_match cond "1.prems"(6) by simp
    next
      case False
      then show ?thesis
        using tick recv_wait [OF "1.prems"(1,2) ib] by simp
    qed
  next
    case (Cons p ss)
    obtain t1 d1 where p: "p = (t1, d1)"
      by (cases p)
    have ib: "inbox w = (t1, d1) # (ss @ (t, d) # rest)"
      using "1.prems" Cons p by simp
    have t1: "t1 \<le> t" and st: "stray mid (t1, d1)"
      and ss: "list_all (\<lambda>p. fst p \<le> t \<and> stray mid p) ss"
      using "1.prems"(4) Cons p by simp_all
    show ?thesis
    proof (cases "t1 \<le> now w + \<tau>")
      case True
      obtain g where g: "fromBytes (take 65565 d1) = Inr g" and gid: "fr_msgId g \<noteq> mid"
        using st by (auto simp: stray_def split: sum.splits)
      let ?w = "w\<lparr>now := max (now w) t1, inbox := ss @ (t, d) # rest\<rparr>"
      have rv: "recv w = (Inr g, ?w)"
        using recv_datagram [OF "1.prems"(1,2) ib True] g by simp
      have gid': "mid \<noteq> fr_msgId g"
        using gid by simp
      have "waitForData_loop self mid start (fr_msgId g) ?w =
              (Inr f, ?w\<lparr>now := max (now ?w) t, inbox := rest\<rparr>)"
        using "1.IH"(2) [OF cond rv [symmetric] refl gid', of ss] "1.prems" ss gid t1 by simp
      moreover have "max (max (now w) t1) t = max (now w) t"
        using t1 by simp
      ultimately show ?thesis
        using loop_stray [OF _ _ rv gid, of r start self] cond by simp
    next
      case False
      then show ?thesis
        using tick recv_wait [OF "1.prems"(1,2) ib] t1 by simp
    qed
  qed
qed

lemma recv_Inr_cases:
  "recv w = (Inr f, w') \<Longrightarrow>
     \<exists>t d. inbox w = (t, d) # inbox w' \<and> fromBytes (take 65565 d) = Inr f \<and>
           outbox w' = outbox w \<and> timeout w' = timeout w"
  by (auto simp: recv_def recvfrom_def
      split: option.splits list.splits if_splits prod.splits sum.splits)

lemma loop_sound:
  "waitForData_loop self mid start r w = (Inr f, w') \<Longrightarrow>
     fr_msgId f = mid \<and> outbox w' = outbox w \<and>
     (\<exists>pre t d. inbox w = pre @ (t, d) # inbox w' \<and> list_all (stray mid) pre \<and>
                fromBytes (take 65565 d) = Inr f)"
proof (induction self mid start r w rule: waitForData_loop.induct)
  case (1 self mid start r w)
  have cond: "r \<noteq> mid \<and> now w < start + responseTimeout self"
    using "1.prems" loop_exit [of r mid w start self] by auto
  obtain x y where rv: "recv w = (x, y)"
    by (cases "recv w")
  show ?case
  proof (cases x)
    case (Inl e)
    then have e: "e = SocketTimeout"
      using "1.prems" cond rv by (auto simp: waitForData_loop.simps [of self mid start r w] split: if_splits)
    then have "waitForData_loop self mid start r y = (Inr f, w')"
      using "1.prems" cond rv Inl loop_timeout [of r mid w start self y] by simp
    then have "fr_msgId f = mid \<and> outbox w' = outbox y \<and>
        (\<exists>pre t d. inbox y = pre @ (t, d) # inbox w' \<and> list_all (stray mid) pre \<and>
                   fromBytes (take 65565 d) = Inr f)"
      using "1.IH"(1) [OF cond rv [symmetric] Inl e] by simp
    moreover have "inbox y = inbox w" and "outbox y = outbox w"
      using recv_SocketTimeout [of w y] rv Inl e by auto
    ultimately show ?thesis
      by simp
  next
    case (Inr g)
    obtain t d where td: "inbox w = (t, d) # inbox y" "fromBytes (take 65565 d) = Inr g"
      "outbox y = outbox w"
      using recv_Inr_cases [of w g y] rv Inr by auto
    show ?thesis
    proof (cases "fr_msgId g = mid")
      case True
      then have "waitForData_loop self mid start r w = (Inr g, y)"
        using loop_match cond rv Inr by simp
      then have "f = g" and "w' = y"
        using "1.prems" by simp_all
      then have "inbox w = [] @ (t, d) # inbox w'" and "list_all (stray mid) []"
        and "fromBytes (take 65565 d) = Inr f"
        using td by simp_all
      then have "\<exists>pre t d. inbox w = pre @ (t, d) # inbox w' \<and> list_all (stray mid) pre \<and>
                   fromBytes (take 65565 d) = Inr f"
        by blast
      then show ?thesis
        using True td \<open>f = g\<close> \<open>w' = y\<close> by simp
    next
      case False
      then have ne: "mid \<noteq> fr_msgId g"
        by simp
      have "waitForData_loop self mid start (fr_msgId g) y = (Inr f, w')"
        using "1.prems" cond rv Inr False loop_stray [of r mid w start self g y] by simp
      then have "fr_msgId f = mid \<and> outbox w' = outbox y \<and>
        (\<exists>pre t d. inbox y = pre @ (t, d) # inbox w' \<and> list_all (stray mid) pre \<and>
                   fromBytes (take 65565 d) = Inr f)"
        using "1.IH"(2) [OF cond rv [symmetric] Inr ne] by simp
      then obtain pre t' d' where "fr_msgId f = mid" "outbox w' = outbox y"
        "inbox y = pre @ (t', d') # inbox w'" "list_all (stray mid) pre"
        "fromBytes (take 65565 d') = Inr f"
        by blast
      then have "inbox w = ((t, d) # pre) @ (t', d') # inbox w'"
        and "list_all (stray mid) ((t, d) # pre)"
        using td False by (simp_all add: stray_def)
      then have "\<exists>pre t d. inbox w = pre @ (t, d) # inbox w' \<and> list_all (stray mid) pre \<and>
                   fromBytes (take 65565 d) = Inr f"
        using \<open>fromBytes (take 65565 d') = Inr f\<close> by blast
      then show ?thesis
        using \<open>fr_msgId f = mid\<close> \<open>outbox w' = outbox y\<close> td by simp
    qed
  qed
qed

lemma loop_never_SocketTimeout:
  "fst (waitForData_loop self mid start r w) \<noteq> Inl SocketTimeout"
proof (induction self mid start r w rule: waitForData_loop.induct)
  case (1 self mid start r w)
  show ?case
  proof (cases "r \<noteq> mid \<and> now w < start + responseTimeout self")
    case False
    then show ?thesis
      using loop_exit [of r mid w start self] by simp
  next
    case cond: True
    obtain x y where rv: "recv w = (x, y)"
      by (cases "recv w")
    show ?thesis
    proof (cases x)
      case (Inl e)
      show ?thesis
      proof (cases "e = SocketTimeout")
        case True
        then show ?thesis
          using "1.IH"(1) [OF cond rv [symmetric] Inl True] cond rv Inl
            loop_timeout [of r mid w start self y] by simp
      next
        case False
        then show ?thesis
          using cond rv Inl by (simp add: waitForData_loop.simps [of self mid start r w])
      qed
    next
      case (Inr g)
      show ?thesis
      proof (cases "fr_msgId g = mid")
        case True
        have "waitForData_loop self mid start r w = (Inr g, y)"
          by (rule loop_match) (use cond rv Inr True in simp_all)
        then show ?thesis
          by simp
      next
        case False
        then have ne: "mid \<noteq> fr_msgId g"
          by simp
        have "waitForData_loop self mid start r w = waitForData_loop self mid start (fr_msgId g) y"
          by (rule loop_stray) (use cond rv Inr False in simp_all)
        then show ?thesis
          using "1.IH"(2) [OF cond rv [symmetric] Inr ne] by simp
      qed
    qed
  qed
qed

lemma loop_gives_up:
  assumes "timeout w = Some \<tau>" and "0 < \<tau>"
    and "inbox w = strays @ late"
    and "list_all (stray mid) strays"
    and "late = [] \<or> start + responseTimeout self + \<tau> \<le> fst (hd late)"
    and "r \<noteq> mid" and "now w < start + responseTimeout self + \<tau>"
  shows "\<exists>w'. waitForData_loop self mid start r w = (Inl TimeoutException, w') \<and>
           start + responseTimeout self \<le> now w' \<and>
           now w' < start + responseTimeout self + \<tau> \<and>
           outbox w' = outbox w"
  using assms
proof (induction self mid start r w arbitrary: strays rule: waitForData_loop.induct)
  case (1 self mid start r w)
  let ?D = "start + responseTimeout self"
  show ?case
  proof (cases "now w < ?D")
    case False
    then show ?thesis
      using loop_exit [of r mid w start self] "1.prems" by simp
  next
    case True
    then have cond: "r \<noteq> mid \<and> now w < ?D"
      using "1.prems" by simp
    have tick: ?thesis if rv: "recv w = (Inl SocketTimeout, w\<lparr>now := now w + \<tau>\<rparr>)"
    proof -
      let ?w = "w\<lparr>now := now w + \<tau>\<rparr>"
      have "\<exists>w'. waitForData_loop self mid start r ?w = (Inl TimeoutException, w') \<and>
           ?D \<le> now w' \<and> now w' < ?D + \<tau> \<and> outbox w' = outbox ?w"
        using "1.IH"(1) [OF cond rv [symmetric] refl refl, of strays] "1.prems" True by simp
      then show ?thesis
        using loop_timeout [OF _ _ rv, of r mid start self] cond by auto
    qed
    show ?thesis
    proof (cases "inbox w")
      case Nil
      then show ?thesis
        using tick recv_idle [OF "1.prems"(1,2)] by simp
    next
      case (Cons p tl)
      obtain t d where p: "p = (t, d)"
        by (cases p)
      have ib: "inbox w = (t, d) # tl"
        using Cons p by simp
      show ?thesis
      proof (cases "t \<le> now w + \<tau>")
        case False
        then show ?thesis
          using tick recv_wait [OF "1.prems"(1,2) ib] by simp
      next
        case early: True
        have "strays \<noteq> []"
        proof
          assume "strays = []"
          then have "late = (t, d) # tl"
            using "1.prems"(3) ib by simp
          then show False
            using "1.prems"(5) early True by simp
        qed
        then obtain ss where ss: "strays = (t, d) # ss" "tl = ss @ late"
          using "1.prems"(3) ib by (cases strays) auto
        then obtain g where g: "fromBytes (take 65565 d) = Inr g" and gid: "fr_msgId g \<noteq> mid"
          using "1.prems"(4) by (auto simp: stray_def split: sum.splits)
        let ?w = "w\<lparr>now := max (now w) t, inbox := tl\<rparr>"
        have rv: "recv w = (Inr g, ?w)"
          using recv_datagram [OF "1.prems"(1,2) ib early] g by simp
        have gid': "mid \<noteq> fr_msgId g"
          using gid by simp
        have "\<exists>w'. waitForData_loop self mid start (fr_msgId g) ?w = (Inl TimeoutException, w') \<and>
           ?D \<le> now w' \<and> now w' < ?D + \<tau> \<and> outbox w' = outbox ?w"
          using "1.IH"(2) [OF cond rv [symmetric] refl gid', of ss] "1.prems" ss gid early True
          by simp
        then show ?thesis
          using loop_stray [OF _ _ rv gid, of r start self] cond by auto
      qed
    qed
  qed
qed

lemma be_int_nonneg: "0 \<le> be_int bs"
proof (induction bs rule: rev_induct)
  case Nil
  show ?case by (simp add: be_int_def)
next
  case (snoc b bs)
  then show ?case by (simp add: be_int_snoc)
qed

lemma fromBytes_msgId_nonneg: "fromBytes data = Inr f \<Longrightarrow> 0 \<le> fr_msgId f"
  by (auto simp: fromBytes_def struct_unpack_def Let_def fr_msgId_def be_int_nonneg
      split: if_splits)

text \<open>
  Claim C3. \<open>_waitForData\<close> returns a frame only if that frame's id is the requested
  one: every datagram it took before is a frame with another id, and nothing was sent for
  any of them. Conversely, when the frames queued before a frame with the requested id all
  carry other ids and that frame arrives before the deadline, the loop drops each of them,
  sits out the receive slices in which nothing arrives, and returns the frame with the
  requested id.
\<close>

theorem waitForData_returns_only_on_match:
  "(waitForData self mid w = (Inr f, w') \<longrightarrow>
      fr_msgId f = mid \<and> outbox w' = outbox w \<and>
      (\<exists>pre t d. inbox w = pre @ (t, d) # inbox w' \<and> list_all (stray mid) pre \<and>
                 fromBytes (take 65565 d) = Inr f)) \<and>
   (inbox w = strays @ (t, d) # rest \<and> list_all (\<lambda>p. fst p \<le> t \<and> stray mid p) strays \<and>
    fromBytes (take 65565 d) = Inr g \<and> fr_msgId g = mid \<and>
    0 < responseTimeout self \<and> t < now w + responseTimeout self \<longrightarrow>
      waitForData self mid w =
        (Inr g, w\<lparr>now := max (now w) t, timeout := Some (1 / 2), inbox := rest\<rparr>))"
proof (intro conjI impI)
  assume "waitForData self mid w = (Inr f, w')"
  then have "waitForData_loop self mid (now w) (- 1) (settimeout (1 / 2) w) = (Inr f, w')"
    by (simp add: waitForData_def)
  then show "fr_msgId f = mid" and "outbox w' = outbox w"
    and "\<exists>pre t d. inbox w = pre @ (t, d) # inbox w' \<and> list_all (stray mid) pre \<and>
                 fromBytes (take 65565 d) = Inr f"
    using loop_sound [of self mid "now w" "- 1" "settimeout (1 / 2) w" f w']
    by (simp_all add: settimeout_def)
next
  assume a: "inbox w = strays @ (t, d) # rest \<and>
    list_all (\<lambda>p. fst p \<le> t \<and> stray mid p) strays \<and>
    fromBytes (take 65565 d) = Inr g \<and> fr_msgId g = mid \<and>
    0 < responseTimeout self \<and> t < now w + responseTimeout self"
  then have "0 \<le> mid"
    using fromBytes_msgId_nonneg [of "take 65565 d" g] by simp
  then have "- 1 \<noteq> mid"
    by simp
  then have "waitForData_loop self mid (now w) (- 1) (settimeout (1 / 2) w) =
      (Inr g, (settimeout (1 / 2) w)\<lparr>now := max (now (settimeout (1 / 2) w)) t, inbox := rest\<rparr>)"
    using a by (intro loop_finds_match [where \<tau> = "1 / 2" and strays = strays and d = d])
      (simp_all add: settimeout_def)
  then show "waitForData self mid w =
        (Inr g, w\<lparr>now := max (now w) t, timeout := Some (1 / 2), inbox := rest\<rparr>)"
    by (simp add: waitForData_def settimeout_def)
qed

lemma fromBytes_dg_ack5: "fromBytes (take 65565 dg_ack5) = Inr (5, 0, version_1_19, 1002, 0, 0, 0, 0, [])"
  by (simp add: dg_ack5_def fromBytes_def struct_unpack_def be_int_def version_1_19_def)

lemma fromBytes_dg_stray7: "fromBytes (take 65565 dg_stray7) = Inr (7, 0, version_1_19, 1004, 0, 0, 0, 0, [0x41])"
  by (simp add: dg_stray7_def fromBytes_def struct_unpack_def be_int_def version_1_19_def)

lemma fromBytes_dg_stray9: "fromBytes (take 65565 dg_stray9) = Inr (9, 0, version_1_19, 1002, 0, 0, 0, 0, [])"
  by (simp add: dg_stray9_def fromBytes_def struct_unpack_def be_int_def version_1_19_def)

theorem waitForData_returns_only_on_match_witness:
  "waitForData api0 5 w_strays =
     (Inr (5, 0, version_1_19, 1002, 0, 0, 0, 0, []),
      \<lparr>now = 101, timeout = Some (1 / 2), inbox = [], outbox = []\<rparr>) \<and>
   fr_msgId (5, 0, version_1_19, 1002, 0, 0, 0, 0, []) = 5 \<and>
   stray 5 (1001 / 10, dg_stray7) \<and> stray 5 (1009 / 10, dg_stray9)"
proof -
  let ?g = "(5, 0, version_1_19, 1002, 0, 0, 0, 0, []) :: frame"
  let ?w = "\<lparr>now = 101, timeout = Some (1 / 2), inbox = [], outbox = []\<rparr>"
  note inst = waitForData_returns_only_on_match [of api0 5 w_strays ?g ?w
      "[(1001 / 10, dg_stray7), (1009 / 10, dg_stray9)]" 101 dg_ack5 "[]" ?g]
  have s: "stray 5 (1001 / 10, dg_stray7)" "stray 5 (1009 / 10, dg_stray9)"
    by (simp_all add: stray_def fromBytes_dg_stray7 fromBytes_dg_stray9 fr_msgId_def)
  have run: "waitForData api0 5 w_strays = (Inr ?g, ?w)"
    using inst s by (simp add: w_strays_def api0_def fromBytes_dg_ack5 fr_msgId_def)
  then have "fr_msgId ?g = 5"
    using inst by blast
  with run s show ?thesis
    by simp
qed

section \<open>Receiving the response\<close>

lemma pack_uint_Inr: "pack_uint k v = Inr b \<Longrightarrow> 0 \<le> v \<and> v < 256 ^ k \<and> b = be_bytes k v"
  by (auto simp: pack_uint_def split: if_splits)

lemma toBytes_Inr:
  "toBytes clock r = Inr b \<Longrightarrow>
     0 \<le> msgId r \<and> msgId r < 2 ^ 32 \<and> 0 \<le> msgType r \<and> msgType r < 2 ^ 32 \<and>
     0 \<le> clientType r \<and> clientType r < 2 ^ 8 \<and> 0 \<le> py_int clock \<and> py_int clock < 2 ^ 64"
  by (auto simp: toBytes_def split: sum.splits dest!: pack_uint_Inr)

lemma fromBytes_toBytes:
  assumes "toBytes clock r = Inr b" and "length (version r) = 4"
  shows "fromBytes b = Inr (msgId r, py_int clock, version r, msgType r, clientType r,
                            0, 0, 0, extraData r)"
proof -
  note rg = toBytes_Inr [OF assms(1)]
  have v: "pack_s 4 (version r) = version r"
    using assms(2) by (simp add: pack_s_def)
  have b: "b = be_bytes 4 (msgId r) @ be_bytes 8 (py_int clock) @ version r @
         be_bytes 4 (msgType r) @ [word_of_int (clientType r), 0, 0, 0] @ extraData r"
    using assms(1) rg toBytes_ok [of r clock] by (simp add: v)
  have ct: "uint (word_of_int (clientType r) :: byte) = clientType r"
    using rg by (simp add: uint_word_of_int)
  show ?thesis
    unfolding b using rg assms(2)
    by (subst fromBytes_layout) (simp_all add: length_be_bytes be_int_be_bytes ct)
qed

lemma sendAck_Inr:
  assumes "sendAck lib self mid w = (Inr u, w')"
  shows "\<exists>body b. utf8_bytes (et_tostring_Ack lib) = Inr body \<and>
           w' = sendto b (controllerIpAndPort self) w \<and>
           fromBytes b = Inr (mid, py_int (now w), version_1_19, XMLACK_MESSAGE_TYPE, 0, 0, 0, 0, body)"
proof -
  obtain body where body: "utf8_bytes (et_tostring_Ack lib) = Inr body"
    using assms by (auto simp: sendAck_def OmniLogicRequest_def Let_def split: sum.splits)
  let ?r = "\<lparr>msgId = mid, msgType = XMLACK_MESSAGE_TYPE, clientType = 0,
              extraData = body, version = version_1_19\<rparr>"
  obtain b where b: "toBytes (now w) ?r = Inr b" and w': "w' = sendto b (controllerIpAndPort self) w"
    using assms body by (auto simp: sendAck_def OmniLogicRequest_def Let_def split: sum.splits)
  have "fromBytes b = Inr (mid, py_int (now w), version_1_19, XMLACK_MESSAGE_TYPE, 0, 0, 0, 0, body)"
    using fromBytes_toBytes [OF b] by (simp add: version_1_19_def)
  with body w' show ?thesis
    by blast
qed

lemma sendAck_acks:
  assumes "sendAck lib self (fr_msgId f) w = (Inr u, w')"
    and "fromBytes (take 65565 d) = Inr f"
  shows "\<exists>q. outbox w' = outbox w @ [q] \<and> acks lib self (t, d) q \<and>
             now w' = now w \<and> inbox w' = inbox w \<and> timeout w' = timeout w"
proof -
  obtain body b where "utf8_bytes (et_tostring_Ack lib) = Inr body"
    and "w' = sendto b (controllerIpAndPort self) w"
    and "fromBytes b = Inr (fr_msgId f, py_int (now w), version_1_19, XMLACK_MESSAGE_TYPE, 0, 0, 0, 0, body)"
    using sendAck_Inr [OF assms(1)] by blast
  then have "outbox w' = outbox w @ [(b, controllerIpAndPort self)]"
    and "acks lib self (t, d) (b, controllerIpAndPort self)"
    and "now w' = now w \<and> inbox w' = inbox w \<and> timeout w' = timeout w"
    using assms(2)
    by (simp_all add: sendto_def acks_def fr_msgId_def fr_msgType_def fr_clientType_def fr_data_def)
  then show ?thesis
    by blast
qed

lemma blocks_sound:
  "receiveFile_blocks lib self n acc w = (Inr buf, w') \<Longrightarrow>
     \<exists>ds as. length ds = n \<and> inbox w = ds @ inbox w' \<and> outbox w' = outbox w @ as \<and>
             list_all2 (acks lib self) ds as \<and> buf = acc @ concat (map block_data ds)"
proof (induction n arbitrary: acc w)
  case 0
  then show ?case by simp
next
  case (Suc n)
  obtain x w1 where rv: "recv w = (x, w1)"
    by (cases "recv w")
  then obtain f where x: "x = Inr f"
    using Suc.prems by (cases x) auto
  obtain t d where td: "inbox w = (t, d) # inbox w1" "fromBytes (take 65565 d) = Inr f"
    "outbox w1 = outbox w"
    using recv_Inr_cases [of w f w1] rv x by auto
  obtain y w2 where sa: "sendAck lib self (fr_msgId f) w1 = (y, w2)"
    by (cases "sendAck lib self (fr_msgId f) w1")
  then obtain u where y: "y = Inr u"
    using Suc.prems rv x by (cases y) auto
  obtain q where q: "outbox w2 = outbox w1 @ [q]" "acks lib self (t, d) q" "inbox w2 = inbox w1"
    using sendAck_acks [of lib self f w1 u w2 d t] sa y td by auto
  have "receiveFile_blocks lib self n (acc @ drop 8 (fr_data f)) w2 = (Inr buf, w')"
    using Suc.prems rv x sa y by simp
  then obtain ds as where ds: "length ds = n" "inbox w2 = ds @ inbox w'"
    "outbox w' = outbox w2 @ as" "list_all2 (acks lib self) ds as"
    "buf = (acc @ drop 8 (fr_data f)) @ concat (map block_data ds)"
    using Suc.IH by blast
  have fd: "fr_data f = drop 24 (take 65565 d)"
    using td(2) by (auto simp: fromBytes_def Let_def fr_data_def split: sum.splits)
  have "length ((t, d) # ds) = Suc n" and "inbox w = ((t, d) # ds) @ inbox w'"
    and "outbox w' = outbox w @ (q # as)" and "list_all2 (acks lib self) ((t, d) # ds) (q # as)"
    and "buf = acc @ concat (map block_data ((t, d) # ds))"
    using ds q td fd by (simp_all add: block_data_def)
  then show ?case
    by blast
qed

lemma frame_cases:
  obtains mid tstamp vers mtype ctype res1 compressed res3 data
  where "(f :: frame) = (mid, tstamp, vers, mtype, ctype, res1, compressed, res3, data)"
  by (cases f) auto

lemma buffer_sound:
  assumes "receiveFile_buffer lib self w = (Inr (c, buf), w')"
  shows "\<exists>t d f w1 ds as.
           recv w = (Inr f, w1) \<and> inbox w = (t, d) # ds @ inbox w' \<and>
           fromBytes (take 65565 d) = Inr f \<and>
           outbox w' = outbox w @ as \<and> list_all2 (acks lib self) ((t, d) # ds) as \<and>
           c = (fr_compressed f = 1 \<or> fr_msgType f = MSP_TELEMETRYUPDATE_MESSAGE_TYPE) \<and>
           (if fr_msgType f = MSP_LEADMESSAGE_MESSAGE_TYPE
            then (\<exists>N. et_blockCount lib (butlast (fr_data f)) = Inr N \<and> length ds = nat N) \<and>
                 buf = concat (map block_data ds)
            else ds = [] \<and> buf = (if c then fr_data f else drop 8 (fr_data f)))"
proof -
  obtain x w1 where rv: "recv w = (x, w1)"
    by (cases "recv w")
  then obtain f where x: "x = Inr f"
    using assms by (cases x) (auto simp: receiveFile_buffer_def)
  obtain mid tstamp vers mtype ctype res1 compressed res3 data
    where f: "f = (mid, tstamp, vers, mtype, ctype, res1, compressed, res3, data)"
    by (rule frame_cases)
  have acc: "fr_msgId f = mid" "fr_msgType f = mtype" "fr_compressed f = compressed"
    "fr_data f = data"
    by (simp_all add: f fr_msgId_def fr_msgType_def fr_compressed_def fr_data_def)
  obtain t d where td: "inbox w = (t, d) # inbox w1" "fromBytes (take 65565 d) = Inr f"
    "outbox w1 = outbox w"
    using recv_Inr_cases [of w f w1] rv x by auto
  obtain y w2 where sa: "sendAck lib self mid w1 = (y, w2)"
    by (cases "sendAck lib self mid w1")
  then obtain u where y: "y = Inr u"
    using assms rv x f by (cases y) (auto simp: receiveFile_buffer_def)
  obtain q where q: "outbox w2 = outbox w1 @ [q]" "acks lib self (t, d) q" "inbox w2 = inbox w1"
    using sendAck_acks [of lib self f w1 u w2 d t] sa y td acc by auto
  let ?c = "compressed = 1 \<or> mtype = MSP_TELEMETRYUPDATE_MESSAGE_TYPE"
  have rest: "(if mtype = MSP_LEADMESSAGE_MESSAGE_TYPE then
                 (case et_blockCount lib (butlast data) of
                    Inl e \<Rightarrow> (Inl e, w2)
                  | Inr blockCount \<Rightarrow>
                      (case receiveFile_blocks lib self (nat blockCount) [] w2 of
                         (Inl e, w3) \<Rightarrow> (Inl e, w3)
                       | (Inr retval, w3) \<Rightarrow> (Inr (?c, retval), w3)))
               else if ?c then (Inr (?c, data), w2)
               else (Inr (?c, drop 8 data), w2)) = (Inr (c, buf), w')"
    using assms rv x f sa y by (simp add: receiveFile_buffer_def Let_def)
  show ?thesis
  proof (cases "mtype = MSP_LEADMESSAGE_MESSAGE_TYPE")
    case True
    then obtain N where N: "et_blockCount lib (butlast data) = Inr N"
      using rest by (auto split: sum.splits)
    then have bl: "receiveFile_blocks lib self (nat N) [] w2 = (Inr buf, w')" and c: "c = ?c"
      using rest True by (auto split: sum.splits prod.splits)
    obtain ds as where ds: "length ds = nat N" "inbox w2 = ds @ inbox w'"
      "outbox w' = outbox w2 @ as" "list_all2 (acks lib self) ds as"
      "buf = [] @ concat (map block_data ds)"
      using blocks_sound [OF bl] by blast
    have "inbox w = (t, d) # ds @ inbox w'" and "outbox w' = outbox w @ (q # as)"
      and "list_all2 (acks lib self) ((t, d) # ds) (q # as)"
      using ds q td by simp_all
    then show ?thesis
      using rv x td(2) c True N ds(1,5) acc by (intro exI conjI) auto
  next
    case False
    then have "w' = w2" and c: "c = ?c" and buf: "buf = (if ?c then data else drop 8 data)"
      using rest by (auto split: if_splits)
    then have "inbox w = (t, d) # [] @ inbox w'" and "outbox w' = outbox w @ [q]"
      and "list_all2 (acks lib self) ((t, d) # []) [q]"
      using q td by simp_all
    then show ?thesis
      using rv x td(2) c buf False acc by (intro exI conjI) auto
  qed
qed

lemma loop_outbox: "outbox (snd (waitForData_loop self mid start r w)) = outbox w"
proof (induction self mid start r w rule: waitForData_loop.induct)
  case (1 self mid start r w)
  show ?case
  proof (cases "r \<noteq> mid \<and> now w < start + responseTimeout self")
    case False
    then show ?thesis
      using loop_exit [of r mid w start self] by simp
  next
    case cond: True
    obtain x y where rv: "recv w = (x, y)"
      by (cases "recv w")
    have oy: "outbox y = outbox w"
      using rv by (auto simp: recv_def recvfrom_def
          split: option.splits list.splits if_splits prod.splits sum.splits)
    show ?thesis
    proof (cases x)
      case (Inl e)
      show ?thesis
      proof (cases "e = SocketTimeout")
        case True
        have "waitForData_loop self mid start r w = waitForData_loop self mid start r y"
          by (rule loop_timeout) (use cond rv Inl True in simp_all)
        then show ?thesis
          using "1.IH"(1) [OF cond rv [symmetric] Inl True] oy by simp
      next
        case False
        then show ?thesis
          using cond rv Inl oy by (simp add: waitForData_loop.simps [of self mid start r w])
      qed
    next
      case (Inr g)
      show ?thesis
      proof (cases "fr_msgId g = mid")
        case True
        have "waitForData_loop self mid start r w = (Inr g, y)"
          by (rule loop_match) (use cond rv Inr True in simp_all)
        then show ?thesis
          using oy by simp
      next
        case False
        then have ne: "mid \<noteq> fr_msgId g"
          by simp
        have "waitForData_loop self mid start r w = waitForData_loop self mid start (fr_msgId g) y"
          by (rule loop_stray) (use cond rv Inr False in simp_all)
        then show ?thesis
          using "1.IH"(2) [OF cond rv [symmetric] Inr ne] oy by simp
      qed
    qed
  qed
qed

lemma waitForData_outbox: "outbox (snd (waitForData self mid w)) = outbox w"
  using loop_outbox [of self mid "now w" "- 1" "settimeout (1 / 2) w"]
  by (simp add: waitForData_def settimeout_def)

lemma utf8_bytes_append:
  "utf8_bytes (a @ b) =
     (case utf8_bytes a of
        Inl e \<Rightarrow> Inl e
      | Inr x \<Rightarrow> (case utf8_bytes b of Inl e \<Rightarrow> Inl e | Inr y \<Rightarrow> Inr (x @ y)))"
  by (induction a) (auto split: sum.splits)

text \<open>
  Claim C7. \<open>_sendRequest\<close> sends one datagram, to the controller: a frame with client
  type 0 and the encoded body followed by one zero byte when the body is not empty, and with
  client type 1 and no payload when it is empty.
\<close>

theorem sendRequest_clientType_and_terminator:
  assumes "0 \<le> rnd" and "rnd < 2 ^ 32" and "0 \<le> mtype" and "mtype < 2 ^ 32"
    and "0 \<le> py_int (now w)" and "py_int (now w) < 2 ^ 64"
    and "utf8_bytes extra = Inr body"
  shows "\<exists>b. outbox (snd (sendRequest self rnd mtype extra w)) =
                 outbox w @ [(b, controllerIpAndPort self)] \<and>
              fromBytes b =
                 Inr (rnd, py_int (now w), version_1_19, mtype,
                      (if extra = [] then 1 else 0), 0, 0, 0,
                      (if extra = [] then [] else body @ [0]))"
proof -
  let ?p = "if extra = [] then [] else body @ [0]"
  let ?r = "\<lparr>msgId = rnd, msgType = mtype, clientType = (if extra = [] then 1 else 0),
              extraData = ?p, version = version_1_19\<rparr>"
  have enc: "utf8_bytes (extra @ (if extra \<noteq> [] then [0] else [])) = Inr ?p"
    using assms(7) by (auto simp: utf8_bytes_append utf8_char_def)
  then have rq: "OmniLogicRequest rnd mtype (extra @ (if extra \<noteq> [] then [0] else []))
                   (if extra \<noteq> [] then 0 else 1) = Inr ?r"
    by (auto simp: OmniLogicRequest_def)
  obtain b where b: "toBytes (now w) ?r = Inr b"
    using toBytes_ok [of ?r "now w"] assms by auto
  have dec: "fromBytes b = Inr (rnd, py_int (now w), version_1_19, mtype,
                      (if extra = [] then 1 else 0), 0, 0, 0, ?p)"
    using fromBytes_toBytes [OF b] by (simp add: version_1_19_def)
  have "outbox (snd (sendRequest self rnd mtype extra w)) =
          outbox (snd (waitForData self rnd (sendto b (controllerIpAndPort self) w)))"
    using rq b by (simp add: sendRequest_def Let_def split: prod.splits sum.splits)
  then have "outbox (snd (sendRequest self rnd mtype extra w)) =
          outbox w @ [(b, controllerIpAndPort self)]"
    by (simp add: waitForData_outbox sendto_def)
  with dec show ?thesis
    by blast
qed

lemma waitForData_sound:
  assumes "waitForData self mid w = (Inr f, w')"
  shows "fr_msgId f = mid \<and> outbox w' = outbox w \<and>
      (\<exists>pre t d. inbox w = pre @ (t, d) # inbox w' \<and> list_all (stray mid) pre \<and>
                 fromBytes (take 65565 d) = Inr f)"
proof -
  have "waitForData_loop self mid (now w) (- 1) (settimeout (1 / 2) w) = (Inr f, w')"
    using assms by (simp add: waitForData_def)
  then show ?thesis
    using loop_sound [of self mid "now w" "- 1" "settimeout (1 / 2) w" f w']
    by (simp add: settimeout_def)
qed

lemma sendRequest_Inr:
  assumes "sendRequest self rnd mtype extra w = (Inr u, w1)"
  shows "\<exists>b rq pre t d m.
           outbox w1 = outbox w @ [(b, controllerIpAndPort self)] \<and>
           fromBytes b = Inr rq \<and> fr_msgId rq = rnd \<and> fr_msgType rq = mtype \<and>
           inbox w = pre @ (t, d) # inbox w1 \<and> list_all (stray rnd) pre \<and>
           fromBytes (take 65565 d) = Inr m \<and> fr_msgId m = rnd"
proof -
  let ?x = "extra @ (if extra \<noteq> [] then [0] else [])"
  let ?c = "if extra \<noteq> [] then 0 else 1 :: int"
  obtain r where r: "OmniLogicRequest rnd mtype ?x ?c = Inr r"
    using assms by (cases "OmniLogicRequest rnd mtype ?x ?c") (auto simp: sendRequest_def Let_def)
  then have rf: "msgId r = rnd" "msgType r = mtype" "version r = version_1_19"
    by (auto simp: OmniLogicRequest_def split: sum.splits)
  obtain b where b: "toBytes (now w) r = Inr b"
    using assms r by (cases "toBytes (now w) r") (auto simp: sendRequest_def Let_def)
  let ?w = "sendto b (controllerIpAndPort self) w"
  obtain m where m: "waitForData self rnd ?w = (Inr m, w1)"
    using assms r b by (auto simp: sendRequest_def Let_def split: sum.splits prod.splits)
  have dec: "fromBytes b = Inr (msgId r, py_int (now w), version r, msgType r, clientType r,
                            0, 0, 0, extraData r)"
    using fromBytes_toBytes [OF b] rf by (simp add: version_1_19_def)
  let ?rq = "(msgId r, py_int (now w), version r, msgType r, clientType r,
              0, 0, 0, extraData r) :: frame"
  have rq: "fr_msgId ?rq = rnd" "fr_msgType ?rq = mtype"
    using rf by (simp_all add: fr_msgId_def fr_msgType_def)
  obtain pre t d where "fr_msgId m = rnd" "outbox w1 = outbox ?w"
    "inbox ?w = pre @ (t, d) # inbox w1" "list_all (stray rnd) pre"
    "fromBytes (take 65565 d) = Inr m"
    using waitForData_sound [OF m] by blast
  then have "outbox w1 = outbox w @ [(b, controllerIpAndPort self)]"
    and "inbox w = pre @ (t, d) # inbox w1" and "list_all (stray rnd) pre"
    and "fromBytes (take 65565 d) = Inr m" and "fr_msgId m = rnd"
    by (simp_all add: sendto_def)
  with dec rq show ?thesis
    by blast
qed

lemma be_int_bound: "be_int bs < 256 ^ length bs"
proof (induction bs rule: rev_induct)
  case Nil
  show ?case by (simp add: be_int_def)
next
  case (snoc b bs)
  have "uint b < 256"
    using uint_lt2p [of b] by simp
  with snoc show ?case
    by (simp add: be_int_snoc)
qed

lemma fromBytes_msgId_range:
  "fromBytes data = Inr f \<Longrightarrow> 0 \<le> fr_msgId f \<and> fr_msgId f < 2 ^ 32"
  using be_int_bound [of "take 4 data"]
  by (auto simp: fromBytes_def struct_unpack_def Let_def fr_msgId_def be_int_nonneg
      split: if_splits)

lemma sendAck_ok:
  assumes "0 \<le> mid" and "mid < 2 ^ 32" and "0 \<le> py_int (now w)" and "py_int (now w) < 2 ^ 64"
    and "utf8_bytes (et_tostring_Ack lib) = Inr body"
  shows "\<exists>b. sendAck lib self mid w = (Inr (), sendto b (controllerIpAndPort self) w)"
  using assms toBytes_ok [of "\<lparr>msgId = mid, msgType = XMLACK_MESSAGE_TYPE, clientType = 0,
              extraData = body, version = version_1_19\<rparr>" "now w"]
  by (auto simp: sendAck_def OmniLogicRequest_def XMLACK_MESSAGE_TYPE_def)

lemma recv_queued:
  assumes "inbox w = (t, d) # rest" and "t \<le> now w"
  shows "recv w = (fromBytes (take 65565 d), w\<lparr>inbox := rest\<rparr>)"
proof (cases "timeout w")
  case None
  then show ?thesis
    using assms by (simp add: recv_def recvfrom_def max_def)
next
  case (Some \<tau>)
  then show ?thesis
    using assms by (cases "\<tau> \<le> 0") (simp_all add: recv_def recvfrom_def max_def)
qed

text \<open>
  Claim C10. The block loop takes the next datagrams as blocks whatever their headers say:
  if they are queued, have a header of 24 bytes, and the acks can be encoded, each one is
  counted, acknowledged, and its payload without the first 8 bytes appended. No condition
  on the message type or the message id of a datagram is needed.
\<close>

theorem blocks_ignore_type_and_id:
  assumes "inbox w = ds @ rest"
    and "list_all (\<lambda>p. fst p \<le> now w \<and> 24 \<le> length (snd p)) ds"
    and "0 \<le> py_int (now w)" and "py_int (now w) < 2 ^ 64"
    and "utf8_bytes (et_tostring_Ack lib) = Inr body"
  shows "\<exists>w'. receiveFile_blocks lib self (length ds) acc w =
                 (Inr (acc @ concat (map block_data ds)), w') \<and>
              inbox w' = rest \<and> length (outbox w') = length (outbox w) + length ds"
  using assms(1-4)
proof (induction ds arbitrary: acc w)
  case Nil
  then show ?case by simp
next
  case (Cons p ds)
  obtain t d where p: "p = (t, d)"
    by (cases p)
  have ib: "inbox w = (t, d) # (ds @ rest)" and t: "t \<le> now w" and len: "24 \<le> length d"
    using Cons.prems p by simp_all
  let ?w1 = "w\<lparr>inbox := ds @ rest\<rparr>"
  obtain f where f: "fromBytes (take 65565 d) = Inr f" and fd: "fr_data f = drop 24 (take 65565 d)"
    using len by (simp add: fromBytes_long fr_data_def)
  have rv: "recv w = (Inr f, ?w1)"
    using recv_queued [OF ib t] f by simp
  obtain b where b: "sendAck lib self (fr_msgId f) ?w1 = (Inr (), sendto b (controllerIpAndPort self) ?w1)"
    using sendAck_ok [of "fr_msgId f" ?w1 lib body self] fromBytes_msgId_range [OF f]
      Cons.prems assms(5) by auto
  let ?w2 = "sendto b (controllerIpAndPort self) ?w1"
  have "\<exists>w'. receiveFile_blocks lib self (length ds) (acc @ drop 8 (fr_data f)) ?w2 =
                 (Inr ((acc @ drop 8 (fr_data f)) @ concat (map block_data ds)), w') \<and>
              inbox w' = rest \<and> length (outbox w') = length (outbox ?w2) + length ds"
    using Cons.prems by (intro Cons.IH) (simp_all add: sendto_def)
  then obtain w' where w': "receiveFile_blocks lib self (length ds) (acc @ drop 8 (fr_data f)) ?w2 =
                 (Inr ((acc @ drop 8 (fr_data f)) @ concat (map block_data ds)), w')"
    "inbox w' = rest" "length (outbox w') = length (outbox ?w2) + length ds"
    by blast
  have "receiveFile_blocks lib self (length (p # ds)) acc w =
          receiveFile_blocks lib self (length ds) (acc @ drop 8 (fr_data f)) ?w2"
    using rv b by simp
  moreover have "(acc @ drop 8 (fr_data f)) @ concat (map block_data ds) =
                 acc @ concat (map block_data (p # ds))"
    using fd p by (simp add: block_data_def)
  moreover have "length (outbox ?w2) + length ds = length (outbox w) + length (p # ds)"
    by (simp add: sendto_def)
  ultimately show ?case
    using w' by (intro exI [of _ w']) simp
qed

lemma receiveFile_Inr:
  assumes "receiveFile lib self w = (Inr txt, w')"
  shows "\<exists>c buf. receiveFile_buffer lib self w = (Inr (c, buf), w') \<and>
           (if c then (case zlib_decompress lib buf of
                         Inl e \<Rightarrow> Inl e
                       | Inr plain \<Rightarrow> utf8_decode lib plain)
            else utf8_decode lib buf) = Inr txt"
proof -
  obtain x w1 where b: "receiveFile_buffer lib self w = (x, w1)"
    by (cases "receiveFile_buffer lib self w")
  then obtain c buf where x: "x = Inr (c, buf)"
    using assms by (cases x) (auto simp: receiveFile_def)
  have "w1 = w'"
    using assms b x by (auto simp: receiveFile_def split: sum.splits if_splits)
  moreover have "(if c then (case zlib_decompress lib buf of
                         Inl e \<Rightarrow> Inl e
                       | Inr plain \<Rightarrow> utf8_decode lib plain)
            else utf8_decode lib buf) = Inr txt"
    using assms b x by (auto simp: receiveFile_def split: sum.splits if_splits)
  ultimately show ?thesis
    using b x by blast
qed

lemma request_reply_Inr:
  assumes "request_reply lib self rnd mtype reqBody w = (Inr txt, w')"
  shows "\<exists>w1. sendRequest self rnd mtype reqBody (getSock w) = (Inr (), w1) \<and>
              receiveFile lib self w1 = (Inr txt, w')"
  using assms by (auto simp: request_reply_def Let_def split: sum.splits prod.splits)

text \<open>
  Claim C2, amended. In an exchange that returns a text, the frame with the id of the
  request is the one that ends the wait of \<open>_sendRequest\<close>, after frames with other ids;
  its payload is not used. The text is computed from the frame that follows it, and from
  the blocks after that one when it is a lead message, with no condition on its id.
\<close>

theorem response_is_frame_after_match:
  assumes "request_reply lib self rnd mtype reqBody w = (Inr txt, w')"
  shows "\<exists>pre m f ds g h.
           inbox w = pre @ m # f # ds @ inbox w' \<and>
           list_all (stray rnd) pre \<and>
           fromBytes (take 65565 (snd m)) = Inr g \<and> fr_msgId g = rnd \<and>
           fromBytes (take 65565 (snd f)) = Inr h \<and>
           (if fr_compressed h = 1 \<or> fr_msgType h = MSP_TELEMETRYUPDATE_MESSAGE_TYPE
            then (case zlib_decompress lib
                         (if fr_msgType h = MSP_LEADMESSAGE_MESSAGE_TYPE
                          then concat (map block_data ds) else fr_data h) of
                    Inl e \<Rightarrow> Inl e
                  | Inr plain \<Rightarrow> utf8_decode lib plain)
            else utf8_decode lib
                   (if fr_msgType h = MSP_LEADMESSAGE_MESSAGE_TYPE
                    then concat (map block_data ds) else drop 8 (fr_data h))) = Inr txt"
proof -
  obtain w1 where sr: "sendRequest self rnd mtype reqBody (getSock w) = (Inr (), w1)"
    and rf: "receiveFile lib self w1 = (Inr txt, w')"
    using request_reply_Inr [OF assms] by blast
  obtain pre t d g where m: "inbox (getSock w) = pre @ (t, d) # inbox w1"
    "list_all (stray rnd) pre" "fromBytes (take 65565 d) = Inr g" "fr_msgId g = rnd"
    using sendRequest_Inr [OF sr] by blast
  obtain c buf where bf: "receiveFile_buffer lib self w1 = (Inr (c, buf), w')"
    and fin: "(if c then (case zlib_decompress lib buf of
                         Inl e \<Rightarrow> Inl e
                       | Inr plain \<Rightarrow> utf8_decode lib plain)
            else utf8_decode lib buf) = Inr txt"
    using receiveFile_Inr [OF rf] by blast
  obtain t2 d2 h ds where f: "inbox w1 = (t2, d2) # ds @ inbox w'"
    "fromBytes (take 65565 d2) = Inr h"
    "c = (fr_compressed h = 1 \<or> fr_msgType h = MSP_TELEMETRYUPDATE_MESSAGE_TYPE)"
    "if fr_msgType h = MSP_LEADMESSAGE_MESSAGE_TYPE
     then (\<exists>N. et_blockCount lib (butlast (fr_data h)) = Inr N \<and> length ds = nat N) \<and>
          buf = concat (map block_data ds)
     else ds = [] \<and> buf = (if c then fr_data h else drop 8 (fr_data h))"
    using buffer_sound [OF bf] by blast
  have buf: "buf = (if fr_msgType h = MSP_LEADMESSAGE_MESSAGE_TYPE
                    then concat (map block_data ds)
                    else if c then fr_data h else drop 8 (fr_data h))"
    using f(4) by (auto split: if_splits)
  have "inbox w = pre @ (t, d) # (t2, d2) # ds @ inbox w'"
    using m(1) f(1) by (simp add: getSock_def)
  moreover have "fromBytes (take 65565 (snd (t, d))) = Inr g"
    and "fromBytes (take 65565 (snd (t2, d2))) = Inr h"
    using m(3) f(2) by simp_all
  moreover have "(if fr_compressed h = 1 \<or> fr_msgType h = MSP_TELEMETRYUPDATE_MESSAGE_TYPE
            then (case zlib_decompress lib
                         (if fr_msgType h = MSP_LEADMESSAGE_MESSAGE_TYPE
                          then concat (map block_data ds) else fr_data h) of
                    Inl e \<Rightarrow> Inl e
                  | Inr plain \<Rightarrow> utf8_decode lib plain)
            else utf8_decode lib
                   (if fr_msgType h = MSP_LEADMESSAGE_MESSAGE_TYPE
                    then concat (map block_data ds) else drop 8 (fr_data h))) = Inr txt"
    using fin buf f(3) by (auto split: if_splits)
  ultimately show ?thesis
    using m(2,4) by blast
qed

lemma utf8_ack_xml: "utf8_bytes ack_xml = Inr (map of_nat ack_xml)"
  by (simp add: ack_xml_def utf8_char_def)

lemma fromBytes_dg_reply7:
  "fromBytes (take 65565 dg_reply7) =
     Inr (7, 0, version_1_19, 1003, 0, 0, 0, 0, [0, 0, 0, 0, 0, 0, 0, 0, 0x4F, 0x4B])"
  by (simp add: dg_reply7_def fromBytes_def struct_unpack_def be_int_def version_1_19_def)

lemma fromBytes_dg_zip8:
  "fromBytes (take 65565 dg_zip8) = Inr (8, 0, version_1_19, 1003, 0, 0, 1, 0, zlib_OK)"
  by (simp add: dg_zip8_def zlib_OK_def fromBytes_def struct_unpack_def be_int_def version_1_19_def)

lemma fromBytes_dg_lead11:
  "fromBytes (take 65565 dg_lead11) = Inr (11, 0, version_1_19, 1998, 0, 0, 0, 0, lead_xml @ [0])"
  by (simp add: dg_lead11_def lead_xml_def fromBytes_def struct_unpack_def be_int_def version_1_19_def)

lemma fromBytes_dg_block12:
  "fromBytes (take 65565 dg_block12) =
     Inr (12, 0, version_1_19, 1999, 0, 0, 0, 0, [0, 0, 0, 0, 0, 0, 0, 1, 0x48, 0x65])"
  by (simp add: dg_block12_def fromBytes_def struct_unpack_def be_int_def version_1_19_def)

lemma fromBytes_dg_block13:
  "fromBytes (take 65565 dg_block13) =
     Inr (13, 0, version_1_19, 1999, 0, 0, 0, 0, [0, 0, 0, 0, 0, 0, 0, 2, 0x6C, 0x6C])"
  by (simp add: dg_block13_def fromBytes_def struct_unpack_def be_int_def version_1_19_def)

lemma fromBytes_dg_block14:
  "fromBytes (take 65565 dg_block14) =
     Inr (14, 0, version_1_19, 1999, 0, 0, 0, 0, [0, 0, 0, 0, 0, 0, 0, 3, 0x6F, 0x21])"
  by (simp add: dg_block14_def fromBytes_def struct_unpack_def be_int_def version_1_19_def)

lemma sendAck_lib0:
  assumes "0 \<le> mid" and "mid < 2 ^ 32" and "0 \<le> py_int (now w)" and "py_int (now w) < 2 ^ 64"
  shows "sendAck lib0 self mid w =
           (Inr (), sendto (be_bytes 4 mid @ be_bytes 8 (py_int (now w)) @ version_1_19 @
                            be_bytes 4 0 @ [0, 0, 0, 0] @ map of_nat ack_xml)
                           (controllerIpAndPort self) w)"
  using assms toBytes_ok [of "\<lparr>msgId = mid, msgType = XMLACK_MESSAGE_TYPE, clientType = 0,
              extraData = map of_nat ack_xml, version = version_1_19\<rparr>" "now w"]
  by (simp add: sendAck_def OmniLogicRequest_def XMLACK_MESSAGE_TYPE_def lib0_def utf8_ack_xml
      pack_s_def version_1_19_def)

lemma receiveFile_blocks_numeral:
  "receiveFile_blocks lib self (numeral k) retval w =
     (case recv w of
        (Inl e, w1) \<Rightarrow> (Inl e, w1)
      | (Inr f, w1) \<Rightarrow>
          (case sendAck lib self (fr_msgId f) w1 of
             (Inl e, w2) \<Rightarrow> (Inl e, w2)
           | (Inr u, w2) \<Rightarrow>
               receiveFile_blocks lib self (pred_numeral k) (retval @ drop 8 (fr_data f)) w2))"
  by (simp add: numeral_eq_Suc)

lemma lib0_calls:
  "et_blockCount lib0 lead_xml = Inr 3"
  "zlib_decompress lib0 zlib_OK = Inr [0x4F, 0x4B]"
  "utf8_decode lib0 [0x4F, 0x4B] = Inr [79, 75]"
  "utf8_decode lib0 [0x48, 0x65, 0x6C, 0x6C, 0x6F, 0x21] = Inr [72, 101, 108, 108, 111, 33]"
  by (simp_all add: lib0_def)

lemma py_int_numeral: "py_int (numeral a) = numeral a"
  by (simp add: py_int_def)

lemma py_int_numeral_div: "py_int (numeral a / numeral b) = numeral a div numeral b"
  using floor_divide_of_int_eq [of "numeral a" "numeral b", where ?'a = rat]
  by (simp add: py_int_def)

lemmas run_simps = lib0_calls py_int_numeral py_int_numeral_div
  recv_def recvfrom_def sendto_def settimeout_def getSock_def
  fromBytes_dg_ack5 fromBytes_dg_stray7 fromBytes_dg_stray9 fromBytes_dg_reply7
  fromBytes_dg_zip8 fromBytes_dg_lead11 fromBytes_dg_block12 fromBytes_dg_block13
  fromBytes_dg_block14 sendAck_lib0 fr_msgId_def fr_msgType_def fr_compressed_def
  fr_data_def MSP_LEADMESSAGE_MESSAGE_TYPE_def MSP_TELEMETRYUPDATE_MESSAGE_TYPE_def
  receiveFile_blocks_numeral

lemma run_lead:
  "fst (receiveFile_buffer lib0 api0 w_lead) = Inr (False, [0x48, 0x65, 0x6C, 0x6C, 0x6F, 0x21])"
  "inbox (snd (receiveFile_buffer lib0 api0 w_lead)) = []"
  by (simp_all add: receiveFile_buffer_def w_lead_def run_simps)

lemma run_zip:
  "fst (receiveFile_buffer lib0 api0 w_zip) = Inr (True, zlib_OK)"
  "fst (receiveFile lib0 api0 w_zip) = Inr [79, 75]"
  by (simp_all add: receiveFile_def receiveFile_buffer_def w_zip_def run_simps split_beta)

lemma run_exchange:
  "fst (request_reply lib0 api0 5 300 [] w_exchange) = Inr [79, 75]"
  by (simp add: request_reply_def sendRequest_def OmniLogicRequest_def toBytes_def pack_uint_def
      waitForData_def waitForData_loop.simps
      receiveFile_def receiveFile_buffer_def w_exchange_def api0_def run_simps split_beta)

theorem sendRequest_clientType_and_terminator_witness:
  "map (fromBytes \<circ> fst) (outbox (snd (sendRequest api0 5 300 [0x3C, 0x52, 0x2F, 0x3E] w_exchange))) =
     [Inr (5, 100, version_1_19, 300, 0, 0, 0, 0, [0x3C, 0x52, 0x2F, 0x3E, 0])] \<and>
   map (fromBytes \<circ> fst) (outbox (snd (sendRequest api0 5 300 [] w_exchange))) =
     [Inr (5, 100, version_1_19, 300, 1, 0, 0, 0, [])]"
proof -
  have enc: "utf8_bytes [0x3C, 0x52, 0x2F, 0x3E] = Inr [0x3C, 0x52, 0x2F, 0x3E]"
    by (simp add: utf8_char_def)
  have "\<exists>b. outbox (snd (sendRequest api0 5 300 [0x3C, 0x52, 0x2F, 0x3E] w_exchange)) =
                 outbox w_exchange @ [(b, controllerIpAndPort api0)] \<and>
              fromBytes b = Inr (5, py_int (now w_exchange), version_1_19, 300, 0, 0, 0, 0,
                                 [0x3C, 0x52, 0x2F, 0x3E] @ [0])"
    using sendRequest_clientType_and_terminator [of 5 300 w_exchange "[0x3C, 0x52, 0x2F, 0x3E]"
        "[0x3C, 0x52, 0x2F, 0x3E]" api0] enc
    by (simp add: w_exchange_def py_int_def)
  moreover have "\<exists>b. outbox (snd (sendRequest api0 5 300 [] w_exchange)) =
                 outbox w_exchange @ [(b, controllerIpAndPort api0)] \<and>
              fromBytes b = Inr (5, py_int (now w_exchange), version_1_19, 300, 1, 0, 0, 0, [])"
    using sendRequest_clientType_and_terminator [of 5 300 w_exchange "[]" "[]" api0]
    by (simp add: w_exchange_def py_int_def)
  ultimately show ?thesis
    by (auto simp: w_exchange_def py_int_def)
qed

theorem blocks_ignore_type_and_id_witness:
  "fst (receiveFile_blocks lib0 api0 2 [] w_queued) = Inr [0x48, 0x65] \<and>
   fromBytes (take 65565 dg_stray7) = Inr (7, 0, version_1_19, 1004, 0, 0, 0, 0, [0x41]) \<and>
   fromBytes (take 65565 dg_block12) =
     Inr (12, 0, version_1_19, 1999, 0, 0, 0, 0, [0, 0, 0, 0, 0, 0, 0, 1, 0x48, 0x65])"
proof -
  define ds where "ds = [(1004 / 10 :: rat, dg_stray7), (1005 / 10, dg_block12)]"
  have len: "length ds = 2" and cc: "[] @ concat (map block_data ds) = [0x48, 0x65]"
    by (simp_all add: ds_def block_data_def dg_stray7_def dg_block12_def)
  have "inbox w_queued = ds @ []"
    and "list_all (\<lambda>p. fst p \<le> now w_queued \<and> 24 \<le> length (snd p)) ds"
    and "0 \<le> py_int (now w_queued)" and "py_int (now w_queued) < 2 ^ 64"
    and "utf8_bytes (et_tostring_Ack lib0) = Inr (map of_nat ack_xml)"
    by (simp_all add: ds_def w_queued_def py_int_def lib0_def utf8_ack_xml
        dg_stray7_def dg_block12_def)
  then obtain w' where "receiveFile_blocks lib0 api0 (length ds) [] w_queued =
      (Inr ([] @ concat (map block_data ds)), w')"
    using blocks_ignore_type_and_id [of w_queued ds "[]" lib0 "map of_nat ack_xml" api0 "[]"]
    by blast
  then have "fst (receiveFile_blocks lib0 api0 2 [] w_queued) = Inr [0x48, 0x65]"
    unfolding len cc by simp
  then show ?thesis
    by (simp add: fromBytes_dg_stray7 fromBytes_dg_block12)
qed

section \<open>Whole exchanges\<close>

lemmas exchange_simps =
  request_reply_def sendRequest_def OmniLogicRequest_def toBytes_def pack_uint_def
  waitForData_def waitForData_loop.simps receiveFile_def receiveFile_buffer_def
  api0_def run_simps split_beta

lemma run_exchange_outbox:
  "outbox (snd (request_reply lib0 api0 5 300 [] w_exchange)) =
     [([0, 0, 0, 5,  0, 0, 0, 0, 0, 0, 0, 100,  0x31, 0x2E, 0x31, 0x39,
        0, 0, 1, 0x2C,  1, 0, 0, 0], (''192.168.1.50'', 10444)),
      ([0, 0, 0, 7,  0, 0, 0, 0, 0, 0, 0, 100,  0x31, 0x2E, 0x31, 0x39,
        0, 0, 0, 0,  0, 0, 0, 0] @ map of_nat ack_xml, (''192.168.1.50'', 10444))]"
  by (simp add: exchange_simps w_exchange_def be_bytes_numeral pack_s_def version_1_19_def)

lemma run_lead_exchange:
  "fst (request_reply lib0 api0 5 300 [] w_lead_exchange) = Inr [72, 101, 108, 108, 111, 33]"
  "inbox (snd (request_reply lib0 api0 5 300 [] w_lead_exchange)) = []"
  by (simp_all add: exchange_simps w_lead_exchange_def)

lemma run_exchange_more:
  "fst (request_reply lib0 api0 5 300 [] w_exchange) = Inr [79, 75]"
  "inbox (snd (request_reply lib0 api0 5 300 [] w_exchange)) = []"
  by (simp_all add: exchange_simps w_exchange_def)

text \<open>
  Claim C2 fails as stated: the request has the id 5, the frame with the id 5 has no
  payload, and the text returned is the payload of the frame with the id 7.
\<close>

theorem response_frame_id_counterexample:
  "fst (request_reply lib0 api0 5 300 [] w_exchange) = Inr [79, 75] \<and>
   inbox w_exchange = [(1002 / 10, dg_ack5), (1003 / 10, dg_reply7)] \<and>
   fromBytes (take 65565 dg_ack5) = Inr (5, 0, version_1_19, 1002, 0, 0, 0, 0, []) \<and>
   fromBytes (take 65565 dg_reply7) =
     Inr (7, 0, version_1_19, 1003, 0, 0, 0, 0, [0, 0, 0, 0, 0, 0, 0, 0, 0x4F, 0x4B]) \<and>
   utf8_decode lib0 (drop 8 [0, 0, 0, 0, 0, 0, 0, 0, 0x4F, 0x4B]) = Inr [79, 75]"
proof -
  have "inbox w_exchange = [(1002 / 10, dg_ack5), (1003 / 10, dg_reply7)]"
    by (simp add: w_exchange_def)
  then show ?thesis
    by (simp add: run_exchange_more fromBytes_dg_ack5 fromBytes_dg_reply7 lib0_calls)
qed

text \<open>
  Claim C4 fails as stated: both queued frames are taken, the one with the id 5 as the match
  of the wait, and the only datagrams sent are the request and one ack, with the id 7.
\<close>

theorem matched_frame_not_acked_counterexample:
  "inbox w_exchange = [(1002 / 10, dg_ack5), (1003 / 10, dg_reply7)] \<and>
   fromBytes (take 65565 dg_ack5) = Inr (5, 0, version_1_19, 1002, 0, 0, 0, 0, []) \<and>
   inbox (snd (request_reply lib0 api0 5 300 [] w_exchange)) = [] \<and>
   map (fromBytes \<circ> fst) (outbox (snd (request_reply lib0 api0 5 300 [] w_exchange))) =
     [Inr (5, 100, version_1_19, 300, 1, 0, 0, 0, []),
      Inr (7, 100, version_1_19, 0, 0, 0, 0, 0, map of_nat ack_xml)]"
proof -
  have "inbox w_exchange = [(1002 / 10, dg_ack5), (1003 / 10, dg_reply7)]"
    by (simp add: w_exchange_def)
  moreover have "map (fromBytes \<circ> fst) (outbox (snd (request_reply lib0 api0 5 300 [] w_exchange))) =
     [Inr (5, 100, version_1_19, 300, 1, 0, 0, 0, []),
      Inr (7, 100, version_1_19, 0, 0, 0, 0, 0, map of_nat ack_xml)]"
    by (simp add: run_exchange_outbox fromBytes_def struct_unpack_def be_int_def version_1_19_def)
  ultimately show ?thesis
    by (simp add: run_exchange_more fromBytes_dg_ack5)
qed

theorem response_is_frame_after_match_witness:
  "fst (request_reply lib0 api0 5 300 [] w_lead_exchange) = Inr [72, 101, 108, 108, 111, 33] \<and>
   (\<exists>pre m f ds g h.
      inbox w_lead_exchange =
        pre @ m # f # ds @ inbox (snd (request_reply lib0 api0 5 300 [] w_lead_exchange)) \<and>
      list_all (stray 5) pre \<and>
      fromBytes (take 65565 (snd m)) = Inr g \<and> fr_msgId g = 5 \<and>
      fromBytes (take 65565 (snd f)) = Inr h \<and>
      (if fr_compressed h = 1 \<or> fr_msgType h = MSP_TELEMETRYUPDATE_MESSAGE_TYPE
       then (case zlib_decompress lib0
                    (if fr_msgType h = MSP_LEADMESSAGE_MESSAGE_TYPE
                     then concat (map block_data ds) else fr_data h) of
               Inl e \<Rightarrow> Inl e
             | Inr plain \<Rightarrow> utf8_decode lib0 plain)
       else utf8_decode lib0
              (if fr_msgType h = MSP_LEADMESSAGE_MESSAGE_TYPE
               then concat (map block_data ds) else drop 8 (fr_data h))) =
        Inr [72, 101, 108, 108, 111, 33])"
proof -
  have run: "request_reply lib0 api0 5 300 [] w_lead_exchange =
      (Inr [72, 101, 108, 108, 111, 33], snd (request_reply lib0 api0 5 300 [] w_lead_exchange))"
    using run_lead_exchange(1) by (simp add: prod_eq_iff)
  show ?thesis
    using response_is_frame_after_match [OF run] run_lead_exchange(1) by simp
qed

section \<open>Responses that are queued, and runs that fail\<close>

lemma blocks_queued:
  assumes "inbox w = ds @ rest"
    and "list_all (\<lambda>p. fst p \<le> now w \<and> 24 \<le> length (snd p)) ds"
    and "0 \<le> py_int (now w)" and "py_int (now w) < 2 ^ 64"
    and "utf8_bytes (et_tostring_Ack lib) = Inr body"
  shows "\<exists>w'. receiveFile_blocks lib self (length ds) acc w =
                 (Inr (acc @ concat (map block_data ds)), w') \<and>
              inbox w' = rest \<and> now w' = now w \<and>
              length (outbox w') = length (outbox w) + length ds"
  using assms(1-4)
proof (induction ds arbitrary: acc w)
  case Nil
  then show ?case by simp
next
  case (Cons p ds)
  obtain t d where p: "p = (t, d)"
    by (cases p)
  have ib: "inbox w = (t, d) # (ds @ rest)" and t: "t \<le> now w" and len: "24 \<le> length d"
    using Cons.prems p by simp_all
  let ?w1 = "w\<lparr>inbox := ds @ rest\<rparr>"
  obtain f where f: "fromBytes (take 65565 d) = Inr f" and fd: "fr_data f = drop 24 (take 65565 d)"
    using len by (simp add: fromBytes_long fr_data_def)
  have rv: "recv w = (Inr f, ?w1)"
    using recv_queued [OF ib t] f by simp
  obtain b where b: "sendAck lib self (fr_msgId f) ?w1 = (Inr (), sendto b (controllerIpAndPort self) ?w1)"
    using sendAck_ok [of "fr_msgId f" ?w1 lib body self] fromBytes_msgId_range [OF f]
      Cons.prems assms(5) by auto
  let ?w2 = "sendto b (controllerIpAndPort self) ?w1"
  have "\<exists>w'. receiveFile_blocks lib self (length ds) (acc @ drop 8 (fr_data f)) ?w2 =
                 (Inr ((acc @ drop 8 (fr_data f)) @ concat (map block_data ds)), w') \<and>
              inbox w' = rest \<and> now w' = now ?w2 \<and>
              length (outbox w') = length (outbox ?w2) + length ds"
    using Cons.prems by (intro Cons.IH) (simp_all add: sendto_def)
  then obtain w' where w': "receiveFile_blocks lib self (length ds) (acc @ drop 8 (fr_data f)) ?w2 =
                 (Inr ((acc @ drop 8 (fr_data f)) @ concat (map block_data ds)), w')"
    "inbox w' = rest" "now w' = now ?w2" "length (outbox w') = length (outbox ?w2) + length ds"
    by blast
  have "receiveFile_blocks lib self (length (p # ds)) acc w =
          receiveFile_blocks lib self (length ds) (acc @ drop 8 (fr_data f)) ?w2"
    using rv b by simp
  moreover have "(acc @ drop 8 (fr_data f)) @ concat (map block_data ds) =
                 acc @ concat (map block_data (p # ds))"
    using fd p by (simp add: block_data_def)
  moreover have "length (outbox ?w2) + length ds = length (outbox w) + length (p # ds)"
    and "now ?w2 = now w"
    by (simp_all add: sendto_def)
  ultimately show ?case
    using w' by (intro exI [of _ w']) simp
qed

lemma buffer_queued:
  assumes "inbox w = (t0, d0) # ds @ rest" and "t0 \<le> now w"
    and "list_all (\<lambda>p. fst p \<le> now w \<and> 24 \<le> length (snd p)) ds"
    and "fromBytes (take 65565 d0) = Inr f"
    and "if fr_msgType f = MSP_LEADMESSAGE_MESSAGE_TYPE
         then et_blockCount lib (butlast (fr_data f)) = Inr (int (length ds))
         else ds = []"
    and "0 \<le> py_int (now w)" and "py_int (now w) < 2 ^ 64"
    and "utf8_bytes (et_tostring_Ack lib) = Inr body"
  shows "\<exists>w'. receiveFile_buffer lib self w =
                 (Inr (fr_compressed f = 1 \<or> fr_msgType f = MSP_TELEMETRYUPDATE_MESSAGE_TYPE,
                       if fr_msgType f = MSP_LEADMESSAGE_MESSAGE_TYPE
                       then concat (map block_data ds)
                       else if fr_compressed f = 1 \<or> fr_msgType f = MSP_TELEMETRYUPDATE_MESSAGE_TYPE
                            then fr_data f else drop 8 (fr_data f)), w') \<and>
              inbox w' = rest \<and>
              length (outbox w') = length (outbox w) + 1 + length ds"
proof -
  obtain mid tstamp vers mtype ctype res1 compressed res3 data
    where f: "f = (mid, tstamp, vers, mtype, ctype, res1, compressed, res3, data)"
    by (rule frame_cases)
  have acc: "fr_msgId f = mid" "fr_msgType f = mtype" "fr_compressed f = compressed"
    "fr_data f = data"
    by (simp_all add: f fr_msgId_def fr_msgType_def fr_compressed_def fr_data_def)
  let ?w1 = "w\<lparr>inbox := ds @ rest\<rparr>"
  have rv: "recv w = (Inr f, ?w1)"
    using recv_queued [OF assms(1,2)] assms(4) by simp
  obtain b where b: "sendAck lib self mid ?w1 = (Inr (), sendto b (controllerIpAndPort self) ?w1)"
    using sendAck_ok [of mid ?w1 lib body self] fromBytes_msgId_range [OF assms(4)]
      assms(6-8) acc by auto
  let ?w2 = "sendto b (controllerIpAndPort self) ?w1"
  let ?c = "compressed = 1 \<or> mtype = MSP_TELEMETRYUPDATE_MESSAGE_TYPE"
  have unfold: "receiveFile_buffer lib self w =
     (if mtype = MSP_LEADMESSAGE_MESSAGE_TYPE then
        (case et_blockCount lib (butlast data) of
           Inl e \<Rightarrow> (Inl e, ?w2)
         | Inr blockCount \<Rightarrow>
             (case receiveFile_blocks lib self (nat blockCount) [] ?w2 of
                (Inl e, w3) \<Rightarrow> (Inl e, w3)
              | (Inr retval, w3) \<Rightarrow> (Inr (?c, retval), w3)))
      else if ?c then (Inr (?c, data), ?w2)
      else (Inr (?c, drop 8 data), ?w2))"
    using rv b f by (simp add: receiveFile_buffer_def Let_def)
  show ?thesis
  proof (cases "mtype = MSP_LEADMESSAGE_MESSAGE_TYPE")
    case True
    then have N: "et_blockCount lib (butlast data) = Inr (int (length ds))"
      using assms(5) acc by simp
    obtain w' where w': "receiveFile_blocks lib self (length ds) [] ?w2 =
        (Inr ([] @ concat (map block_data ds)), w')" "inbox w' = rest"
      "length (outbox w') = length (outbox ?w2) + length ds"
      using blocks_queued [of ?w2 ds rest lib body self "[]"] assms(3,6,7,8)
      by (auto simp: sendto_def)
    then show ?thesis
      using unfold True N acc by (intro exI [of _ w']) (simp add: sendto_def)
  next
    case False
    then have "ds = []"
      using assms(5) acc by simp
    then show ?thesis
      using unfold False acc by (intro exI [of _ ?w2]) (simp add: sendto_def)
  qed
qed

lemma lead_reassembly_sound:
  assumes "recv w = (Inr lead, w1)"
    and "fr_msgType lead = MSP_LEADMESSAGE_MESSAGE_TYPE"
    and "et_blockCount lib (butlast (fr_data lead)) = Inr N" and "0 \<le> N"
    and "receiveFile_buffer lib self w = (Inr (c, buf), w')"
  shows "\<exists>ds. int (length ds) = N \<and> inbox w1 = ds @ inbox w' \<and>
              buf = concat (map block_data ds)"
proof -
  obtain t d f w1' ds where b: "recv w = (Inr f, w1')" "inbox w = (t, d) # ds @ inbox w'"
    "if fr_msgType f = MSP_LEADMESSAGE_MESSAGE_TYPE
     then (\<exists>N. et_blockCount lib (butlast (fr_data f)) = Inr N \<and> length ds = nat N) \<and>
          buf = concat (map block_data ds)
     else ds = [] \<and> buf = (if c then fr_data f else drop 8 (fr_data f))"
    using buffer_sound [OF assms(5)] by blast
  have same: "f = lead" "w1' = w1"
    using b(1) assms(1) by simp_all
  then have "length ds = nat N" and "buf = concat (map block_data ds)"
    using b(3) assms(2,3) by auto
  moreover have "inbox w1 = ds @ inbox w'"
    using recv_Inr_cases [OF assms(1)] b(2) by auto
  ultimately show ?thesis
    using assms(4) by auto
qed

text \<open>
  Claim C5. When the first datagram queued for \<open>_receiveFile\<close> is a lead message whose
  payload without its last byte announces as \<open>MsgBlockCount\<close> the number of the datagrams
  queued behind it, \<open>_receiveFile\<close> receives exactly those datagrams and assembles the
  concatenation, in arrival order, of their payloads without the first 8 bytes. And whenever
  the buffer is assembled after a lead message that announces \<open>N\<close>, whatever the timing,
  exactly the next \<open>N\<close> datagrams were received and the buffer is that concatenation.
\<close>

theorem lead_message_reassembly:
  "(inbox w = (t0, d0) # ds @ rest \<and> t0 \<le> now w \<and>
    list_all (\<lambda>p. fst p \<le> now w \<and> 24 \<le> length (snd p)) ds \<and>
    fromBytes (take 65565 d0) = Inr lead \<and>
    fr_msgType lead = MSP_LEADMESSAGE_MESSAGE_TYPE \<and>
    et_blockCount lib (butlast (fr_data lead)) = Inr (int (length ds)) \<and>
    0 \<le> py_int (now w) \<and> py_int (now w) < 2 ^ 64 \<and>
    utf8_bytes (et_tostring_Ack lib) = Inr body \<longrightarrow>
      (\<exists>v. receiveFile_buffer lib self w =
              (Inr (fr_compressed lead = 1, concat (map block_data ds)), v) \<and>
           inbox v = rest \<and> length (outbox v) = length (outbox w) + 1 + length ds)) \<and>
   (recv u = (Inr lead', u1) \<and> fr_msgType lead' = MSP_LEADMESSAGE_MESSAGE_TYPE \<and>
    et_blockCount lib (butlast (fr_data lead')) = Inr N \<and> 0 \<le> N \<and>
    receiveFile_buffer lib self u = (Inr (c, buf), u') \<longrightarrow>
      (\<exists>bs. int (length bs) = N \<and> inbox u1 = bs @ inbox u' \<and>
            buf = concat (map block_data bs)))"
proof (intro conjI impI)
  assume a: "inbox w = (t0, d0) # ds @ rest \<and> t0 \<le> now w \<and>
    list_all (\<lambda>p. fst p \<le> now w \<and> 24 \<le> length (snd p)) ds \<and>
    fromBytes (take 65565 d0) = Inr lead \<and>
    fr_msgType lead = MSP_LEADMESSAGE_MESSAGE_TYPE \<and>
    et_blockCount lib (butlast (fr_data lead)) = Inr (int (length ds)) \<and>
    0 \<le> py_int (now w) \<and> py_int (now w) < 2 ^ 64 \<and>
    utf8_bytes (et_tostring_Ack lib) = Inr body"
  then have "\<exists>w'. receiveFile_buffer lib self w =
                 (Inr (fr_compressed lead = 1 \<or> fr_msgType lead = MSP_TELEMETRYUPDATE_MESSAGE_TYPE,
                       if fr_msgType lead = MSP_LEADMESSAGE_MESSAGE_TYPE
                       then concat (map block_data ds)
                       else if fr_compressed lead = 1 \<or> fr_msgType lead = MSP_TELEMETRYUPDATE_MESSAGE_TYPE
                            then fr_data lead else drop 8 (fr_data lead)), w') \<and>
              inbox w' = rest \<and>
              length (outbox w') = length (outbox w) + 1 + length ds"
    by (intro buffer_queued [where ?t0.0 = t0 and ?d0.0 = d0 and body = body]) simp_all
  then show "\<exists>v. receiveFile_buffer lib self w =
              (Inr (fr_compressed lead = 1, concat (map block_data ds)), v) \<and>
           inbox v = rest \<and> length (outbox v) = length (outbox w) + 1 + length ds"
    using a by (simp add: MSP_LEADMESSAGE_MESSAGE_TYPE_def MSP_TELEMETRYUPDATE_MESSAGE_TYPE_def)
next
  assume "recv u = (Inr lead', u1) \<and> fr_msgType lead' = MSP_LEADMESSAGE_MESSAGE_TYPE \<and>
    et_blockCount lib (butlast (fr_data lead')) = Inr N \<and> 0 \<le> N \<and>
    receiveFile_buffer lib self u = (Inr (c, buf), u')"
  then show "\<exists>bs. int (length bs) = N \<and> inbox u1 = bs @ inbox u' \<and>
            buf = concat (map block_data bs)"
    using lead_reassembly_sound [of u lead' u1 lib N self c buf u'] by simp
qed

lemma receiveFile_of_buffer:
  assumes "receiveFile_buffer lib self w = (Inr (c, buf), w')"
  shows "receiveFile lib self w =
           (if c
            then (case zlib_decompress lib buf of
                    Inl e \<Rightarrow> (Inl e, w')
                  | Inr plain \<Rightarrow>
                      (case utf8_decode lib plain of
                         Inl e \<Rightarrow> (Inl e, w')
                       | Inr txt \<Rightarrow> (Inr txt, w')))
            else (case utf8_decode lib buf of
                    Inl e \<Rightarrow> (Inl e, w')
                  | Inr txt \<Rightarrow> (Inr txt, w')))"
  using assms by (auto simp: receiveFile_def split: sum.splits)

text \<open>
  Claim C8. For a queued response (a frame, with its blocks when it is a lead message),
  \<open>_receiveFile\<close> passes the assembled buffer through \<open>zlib.decompress\<close> exactly when the
  first frame has the compressed byte 1 or the telemetry update type, and an error of that
  call (the specification's \<open>DecompressionError\<close>) is the result; otherwise the buffer is
  decoded as it is. And whenever a buffer is assembled, whatever the timing, the flag
  \<open>msgCompressed\<close> is that condition on the first frame and decides in the same way.
\<close>

theorem decompress_iff_flag_or_telemetry:
  "(inbox w = (t0, d0) # ds @ rest \<and> t0 \<le> now w \<and>
    list_all (\<lambda>p. fst p \<le> now w \<and> 24 \<le> length (snd p)) ds \<and>
    fromBytes (take 65565 d0) = Inr f \<and>
    (if fr_msgType f = MSP_LEADMESSAGE_MESSAGE_TYPE
     then et_blockCount lib (butlast (fr_data f)) = Inr (int (length ds))
     else ds = []) \<and>
    0 \<le> py_int (now w) \<and> py_int (now w) < 2 ^ 64 \<and>
    utf8_bytes (et_tostring_Ack lib) = Inr body \<longrightarrow>
      (\<exists>v. inbox v = rest \<and>
           receiveFile lib self w =
             (if fr_compressed f = 1 \<or> fr_msgType f = MSP_TELEMETRYUPDATE_MESSAGE_TYPE
              then (case zlib_decompress lib
                           (if fr_msgType f = MSP_LEADMESSAGE_MESSAGE_TYPE
                            then concat (map block_data ds) else fr_data f) of
                      Inl e \<Rightarrow> (Inl e, v)
                    | Inr plain \<Rightarrow>
                        (case utf8_decode lib plain of
                           Inl e \<Rightarrow> (Inl e, v)
                         | Inr txt \<Rightarrow> (Inr txt, v)))
              else (case utf8_decode lib
                           (if fr_msgType f = MSP_LEADMESSAGE_MESSAGE_TYPE
                            then concat (map block_data ds) else drop 8 (fr_data f)) of
                      Inl e \<Rightarrow> (Inl e, v)
                    | Inr txt \<Rightarrow> (Inr txt, v))))) \<and>
   (recv u = (Inr g, u1) \<and> receiveFile_buffer lib self u = (Inr (c, buf), u') \<longrightarrow>
      c = (fr_compressed g = 1 \<or> fr_msgType g = MSP_TELEMETRYUPDATE_MESSAGE_TYPE) \<and>
      receiveFile lib self u =
        (if fr_compressed g = 1 \<or> fr_msgType g = MSP_TELEMETRYUPDATE_MESSAGE_TYPE
         then (case zlib_decompress lib buf of
                 Inl e \<Rightarrow> (Inl e, u')
               | Inr plain \<Rightarrow>
                   (case utf8_decode lib plain of
                      Inl e \<Rightarrow> (Inl e, u')
                    | Inr txt \<Rightarrow> (Inr txt, u')))
         else (case utf8_decode lib buf of
                 Inl e \<Rightarrow> (Inl e, u')
               | Inr txt \<Rightarrow> (Inr txt, u'))))"
proof (intro conjI impI)
  assume a: "inbox w = (t0, d0) # ds @ rest \<and> t0 \<le> now w \<and>
    list_all (\<lambda>p. fst p \<le> now w \<and> 24 \<le> length (snd p)) ds \<and>
    fromBytes (take 65565 d0) = Inr f \<and>
    (if fr_msgType f = MSP_LEADMESSAGE_MESSAGE_TYPE
     then et_blockCount lib (butlast (fr_data f)) = Inr (int (length ds))
     else ds = []) \<and>
    0 \<le> py_int (now w) \<and> py_int (now w) < 2 ^ 64 \<and>
    utf8_bytes (et_tostring_Ack lib) = Inr body"
  let ?c = "fr_compressed f = 1 \<or> fr_msgType f = MSP_TELEMETRYUPDATE_MESSAGE_TYPE"
  let ?buf = "if fr_msgType f = MSP_LEADMESSAGE_MESSAGE_TYPE
              then concat (map block_data ds)
              else if ?c then fr_data f else drop 8 (fr_data f)"
  have "\<exists>w'. receiveFile_buffer lib self w = (Inr (?c, ?buf), w') \<and> inbox w' = rest \<and>
              length (outbox w') = length (outbox w) + 1 + length ds"
    using a by (intro buffer_queued [where ?t0.0 = t0 and ?d0.0 = d0 and body = body]) simp_all
  then obtain v where v: "receiveFile_buffer lib self w = (Inr (?c, ?buf), v)" "inbox v = rest"
    by blast
  show "\<exists>v. inbox v = rest \<and>
           receiveFile lib self w =
             (if fr_compressed f = 1 \<or> fr_msgType f = MSP_TELEMETRYUPDATE_MESSAGE_TYPE
              then (case zlib_decompress lib
                           (if fr_msgType f = MSP_LEADMESSAGE_MESSAGE_TYPE
                            then concat (map block_data ds) else fr_data f) of
                      Inl e \<Rightarrow> (Inl e, v)
                    | Inr plain \<Rightarrow>
                        (case utf8_decode lib plain of
                           Inl e \<Rightarrow> (Inl e, v)
                         | Inr txt \<Rightarrow> (Inr txt, v)))
              else (case utf8_decode lib
                           (if fr_msgType f = MSP_LEADMESSAGE_MESSAGE_TYPE
                            then concat (map block_data ds) else drop 8 (fr_data f)) of
                      Inl e \<Rightarrow> (Inl e, v)
                    | Inr txt \<Rightarrow> (Inr txt, v)))"
    using receiveFile_of_buffer [OF v(1)] v(2) by (intro exI [of _ v]) (simp split: if_splits)
next
  assume b: "recv u = (Inr g, u1) \<and> receiveFile_buffer lib self u = (Inr (c, buf), u')"
  then obtain g' u1' where "recv u = (Inr g', u1')"
    and "c = (fr_compressed g' = 1 \<or> fr_msgType g' = MSP_TELEMETRYUPDATE_MESSAGE_TYPE)"
    using buffer_sound [of lib self u c buf u'] by blast
  then have c: "c = (fr_compressed g = 1 \<or> fr_msgType g = MSP_TELEMETRYUPDATE_MESSAGE_TYPE)"
    using b by simp
  then show "c = (fr_compressed g = 1 \<or> fr_msgType g = MSP_TELEMETRYUPDATE_MESSAGE_TYPE)" .
  show "receiveFile lib self u =
        (if fr_compressed g = 1 \<or> fr_msgType g = MSP_TELEMETRYUPDATE_MESSAGE_TYPE
         then (case zlib_decompress lib buf of
                 Inl e \<Rightarrow> (Inl e, u')
               | Inr plain \<Rightarrow>
                   (case utf8_decode lib plain of
                      Inl e \<Rightarrow> (Inl e, u')
                    | Inr txt \<Rightarrow> (Inr txt, u')))
         else (case utf8_decode lib buf of
                 Inl e \<Rightarrow> (Inl e, u')
               | Inr txt \<Rightarrow> (Inr txt, u')))"
    using receiveFile_of_buffer [of lib self u c buf u'] b c by simp
qed

lemma fromBytes_dg_tel8:
  "fromBytes (take 65565 dg_tel8) = Inr (8, 0, version_1_19, 1004, 0, 0, 0, 0, zlib_OK)"
  by (simp add: dg_tel8_def zlib_OK_def fromBytes_def struct_unpack_def be_int_def version_1_19_def)

lemma lib0_garbled: "zlib_decompress lib0 [0x41] = Inl (LibraryError 1)"
  by (simp add: lib0_def zlib_OK_def)

lemma lib0_ack: "utf8_bytes (et_tostring_Ack lib0) = Inr (map of_nat ack_xml)"
  by (simp add: lib0_def utf8_ack_xml)

theorem lead_message_reassembly_witness:
  "fst (receiveFile_buffer lib0 api0 w_lead_queued) =
     Inr (False, [0x48, 0x65, 0x6C, 0x6C, 0x6F, 0x21]) \<and>
   inbox (snd (receiveFile_buffer lib0 api0 w_lead_queued)) = [] \<and>
   length (outbox (snd (receiveFile_buffer lib0 api0 w_lead_queued))) = 4 \<and>
   fst (receiveFile_buffer lib0 api0 w_lead) = Inr (False, [0x48, 0x65, 0x6C, 0x6C, 0x6F, 0x21]) \<and>
   (\<exists>bs. int (length bs) = 3 \<and>
      [(1004 / 10, dg_block12), (1005 / 10, dg_block13), (1006 / 10, dg_block14)] =
        bs @ inbox (snd (receiveFile_buffer lib0 api0 w_lead)) \<and>
      [0x48, 0x65, 0x6C, 0x6C, 0x6F, 0x21] = concat (map block_data bs))"
proof -
  let ?lead = "(11, 0, version_1_19, 1998, 0, 0, 0, 0, lead_xml @ [0]) :: frame"
  let ?w1 = "\<lparr>now = 1003 / 10, timeout = Some (1 / 2),
              inbox = [(1004 / 10, dg_block12), (1005 / 10, dg_block13), (1006 / 10, dg_block14)],
              outbox = []\<rparr>"
  define ds where "ds = [(1004 / 10 :: rat, dg_block12), (1005 / 10, dg_block13), (1006 / 10, dg_block14)]"
  note inst = lead_message_reassembly [of w_lead_queued "1003 / 10" dg_lead11 ds "[]" ?lead lib0
      "map of_nat ack_xml" api0 w_lead ?lead ?w1 3 False "[0x48, 0x65, 0x6C, 0x6C, 0x6F, 0x21]"
      "snd (receiveFile_buffer lib0 api0 w_lead)"]
  have cc: "concat (map block_data ds) = [0x48, 0x65, 0x6C, 0x6C, 0x6F, 0x21]" and len: "length ds = 3"
    by (simp_all add: ds_def block_data_def dg_block12_def dg_block13_def dg_block14_def)
  have h1: "inbox w_lead_queued = (1003 / 10, dg_lead11) # ds @ [] \<and> 1003 / 10 \<le> now w_lead_queued \<and>
    list_all (\<lambda>p. fst p \<le> now w_lead_queued \<and> 24 \<le> length (snd p)) ds \<and>
    fromBytes (take 65565 dg_lead11) = Inr ?lead \<and>
    fr_msgType ?lead = MSP_LEADMESSAGE_MESSAGE_TYPE \<and>
    et_blockCount lib0 (butlast (fr_data ?lead)) = Inr (int (length ds)) \<and>
    0 \<le> py_int (now w_lead_queued) \<and> py_int (now w_lead_queued) < 2 ^ 64 \<and>
    utf8_bytes (et_tostring_Ack lib0) = Inr (map of_nat ack_xml)"
    unfolding len
    by (simp add: ds_def w_lead_queued_def run_simps lib0_ack
        dg_block12_def dg_block13_def dg_block14_def)
  have rv: "recv w_lead = (Inr ?lead, ?w1)"
    by (simp add: w_lead_def run_simps)
  have bf: "receiveFile_buffer lib0 api0 w_lead =
      (Inr (False, [0x48, 0x65, 0x6C, 0x6C, 0x6F, 0x21]), snd (receiveFile_buffer lib0 api0 w_lead))"
    using run_lead(1) by (simp add: prod_eq_iff)
  have h2: "recv w_lead = (Inr ?lead, ?w1) \<and> fr_msgType ?lead = MSP_LEADMESSAGE_MESSAGE_TYPE \<and>
    et_blockCount lib0 (butlast (fr_data ?lead)) = Inr 3 \<and> (0 :: int) \<le> 3 \<and>
    receiveFile_buffer lib0 api0 w_lead =
      (Inr (False, [0x48, 0x65, 0x6C, 0x6C, 0x6F, 0x21]), snd (receiveFile_buffer lib0 api0 w_lead))"
    using rv bf by (simp add: run_simps)
  have "\<exists>v. receiveFile_buffer lib0 api0 w_lead_queued =
              (Inr (fr_compressed ?lead = 1, concat (map block_data ds)), v) \<and>
           inbox v = [] \<and> length (outbox v) = length (outbox w_lead_queued) + 1 + length ds"
    using inst h1 by blast
  then have a: "fst (receiveFile_buffer lib0 api0 w_lead_queued) =
       Inr (False, [0x48, 0x65, 0x6C, 0x6C, 0x6F, 0x21])"
    "inbox (snd (receiveFile_buffer lib0 api0 w_lead_queued)) = []"
    "length (outbox (snd (receiveFile_buffer lib0 api0 w_lead_queued))) = 4"
    unfolding cc len by (auto simp: fr_compressed_def w_lead_queued_def)
  have b: "\<exists>bs. int (length bs) = 3 \<and> inbox ?w1 = bs @ inbox (snd (receiveFile_buffer lib0 api0 w_lead)) \<and>
            [0x48, 0x65, 0x6C, 0x6C, 0x6F, 0x21] = concat (map block_data bs)"
    using inst h2 by blast
  show ?thesis
    using a b run_lead(1) by simp
qed

theorem decompress_iff_flag_or_telemetry_witness:
  "fst (receiveFile lib0 api0 w_tel) = Inr [79, 75] \<and>
   fromBytes (take 65565 dg_tel8) = Inr (8, 0, version_1_19, 1004, 0, 0, 0, 0, zlib_OK) \<and>
   fst (receiveFile lib0 api0 w_garbled) = Inl (LibraryError 1) \<and>
   fromBytes (take 65565 dg_stray7) = Inr (7, 0, version_1_19, 1004, 0, 0, 0, 0, [0x41]) \<and>
   fst (receiveFile lib0 api0 w_zip) = Inr [79, 75] \<and>
   fromBytes (take 65565 dg_zip8) = Inr (8, 0, version_1_19, 1003, 0, 0, 1, 0, zlib_OK)"
proof -
  let ?tel = "(8, 0, version_1_19, 1004, 0, 0, 0, 0, zlib_OK) :: frame"
  let ?bad = "(7, 0, version_1_19, 1004, 0, 0, 0, 0, [0x41]) :: frame"
  let ?zip = "(8, 0, version_1_19, 1003, 0, 0, 1, 0, zlib_OK) :: frame"
  let ?w1 = "\<lparr>now = 1003 / 10, timeout = Some (1 / 2), inbox = [], outbox = []\<rparr>"
  have rv: "recv w_zip = (Inr ?zip, ?w1)"
    by (simp add: w_zip_def run_simps)
  have bf: "receiveFile_buffer lib0 api0 w_zip =
      (Inr (True, zlib_OK), snd (receiveFile_buffer lib0 api0 w_zip))"
    using run_zip(1) by (simp add: prod_eq_iff)
  have "\<exists>v. inbox v = [] \<and> receiveFile lib0 api0 w_tel = (Inr [79, 75], v)"
    using decompress_iff_flag_or_telemetry [of w_tel "1003 / 10" dg_tel8 "[]" "[]" ?tel lib0
        "map of_nat ack_xml" api0]
    by (simp add: w_tel_def fromBytes_dg_tel8 run_simps lib0_ack)
  then have a: "fst (receiveFile lib0 api0 w_tel) = Inr [79, 75]"
    by auto
  have "\<exists>v. inbox v = [] \<and> receiveFile lib0 api0 w_garbled = (Inl (LibraryError 1), v)"
    using decompress_iff_flag_or_telemetry [of w_garbled "1003 / 10" dg_stray7 "[]" "[]" ?bad lib0
        "map of_nat ack_xml" api0]
    by (simp add: w_garbled_def run_simps lib0_ack lib0_garbled)
  then have b: "fst (receiveFile lib0 api0 w_garbled) = Inl (LibraryError 1)"
    by auto
  have c: "fst (receiveFile lib0 api0 w_zip) = Inr [79, 75]"
    using decompress_iff_flag_or_telemetry [where u = w_zip and g = ?zip and ?u1.0 = ?w1
        and lib = lib0 and self = api0 and c = True and buf = zlib_OK
        and u' = "snd (receiveFile_buffer lib0 api0 w_zip)", THEN conjunct2] rv bf
    by (simp add: run_simps)
  show ?thesis
    using a b c by (simp add: fromBytes_dg_tel8 fromBytes_dg_stray7 fromBytes_dg_zip8)
qed

lemma waitForData_gives_up:
  assumes "0 \<le> mid" and "0 \<le> responseTimeout self"
    and "inbox w = strays @ late" and "list_all (stray mid) strays"
    and "late = [] \<or> now w + responseTimeout self + 1 / 2 \<le> fst (hd late)"
  shows "\<exists>w'. waitForData self mid w = (Inl TimeoutException, w') \<and>
            now w + responseTimeout self \<le> now w' \<and>
            now w' < now w + responseTimeout self + 1 / 2 \<and>
            outbox w' = outbox w"
proof -
  have "- 1 \<noteq> mid"
    using assms(1) by simp
  then have "\<exists>w'. waitForData_loop self mid (now w) (- 1) (settimeout (1 / 2) w) =
                 (Inl TimeoutException, w') \<and>
           now w + responseTimeout self \<le> now w' \<and>
           now w' < now w + responseTimeout self + 1 / 2 \<and>
           outbox w' = outbox (settimeout (1 / 2) w)"
    using assms by (intro loop_gives_up [where strays = strays and late = late])
      (simp_all add: settimeout_def)
  then show ?thesis
    by (simp add: waitForData_def settimeout_def)
qed

text \<open>
  Claim C9, amended. A \<open>socket.timeout\<close> of a single receive attempt never leaves
  \<open>_waitForData\<close>. When every datagram that arrives before the deadline plus one receive
  slice of 0.5 seconds is a frame with another id, the loop ends with its \<open>Exception()\<close>
  (the specification's \<open>ResponseTimeout\<close>), no earlier than the deadline and less than
  0.5 seconds after it, and so does the exchange, after sending the request once.
\<close>

theorem waitForData_times_out:
  "fst (waitForData self mid w) \<noteq> Inl SocketTimeout \<and>
   (0 \<le> mid \<and> 0 \<le> responseTimeout self \<and>
    inbox w = strays @ late \<and> list_all (stray mid) strays \<and>
    (late = [] \<or> now w + responseTimeout self + 1 / 2 \<le> fst (hd late)) \<longrightarrow>
      (\<exists>w'. waitForData self mid w = (Inl TimeoutException, w') \<and>
            now w + responseTimeout self \<le> now w' \<and>
            now w' < now w + responseTimeout self + 1 / 2 \<and>
            outbox w' = outbox w)) \<and>
   (0 \<le> mid \<and> mid < 2 ^ 32 \<and> 0 \<le> mtype \<and> mtype < 2 ^ 32 \<and>
    0 \<le> py_int (now w) \<and> py_int (now w) < 2 ^ 64 \<and> utf8_bytes reqBody = Inr body \<and>
    0 \<le> responseTimeout self \<and>
    inbox w = strays @ late \<and> list_all (stray mid) strays \<and>
    (late = [] \<or> now w + responseTimeout self + 1 / 2 \<le> fst (hd late)) \<longrightarrow>
      (\<exists>w'. request_reply lib self mid mtype reqBody w = (Inl TimeoutException, w') \<and>
            now w + responseTimeout self \<le> now w' \<and>
            now w' < now w + responseTimeout self + 1 / 2 \<and>
            length (outbox w') = length (outbox w) + 1))"
proof (intro conjI impI)
  show "fst (waitForData self mid w) \<noteq> Inl SocketTimeout"
    using loop_never_SocketTimeout by (simp add: waitForData_def)
next
  assume "0 \<le> mid \<and> 0 \<le> responseTimeout self \<and>
    inbox w = strays @ late \<and> list_all (stray mid) strays \<and>
    (late = [] \<or> now w + responseTimeout self + 1 / 2 \<le> fst (hd late))"
  then show "\<exists>w'. waitForData self mid w = (Inl TimeoutException, w') \<and>
            now w + responseTimeout self \<le> now w' \<and>
            now w' < now w + responseTimeout self + 1 / 2 \<and>
            outbox w' = outbox w"
    using waitForData_gives_up [of mid self w strays late] by simp
next
  assume a: "0 \<le> mid \<and> mid < 2 ^ 32 \<and> 0 \<le> mtype \<and> mtype < 2 ^ 32 \<and>
    0 \<le> py_int (now w) \<and> py_int (now w) < 2 ^ 64 \<and> utf8_bytes reqBody = Inr body \<and>
    0 \<le> responseTimeout self \<and>
    inbox w = strays @ late \<and> list_all (stray mid) strays \<and>
    (late = [] \<or> now w + responseTimeout self + 1 / 2 \<le> fst (hd late))"
  let ?p = "if reqBody = [] then [] else body @ [0]"
  let ?r = "\<lparr>msgId = mid, msgType = mtype, clientType = (if reqBody = [] then 1 else 0),
              extraData = ?p, version = version_1_19\<rparr>"
  have "utf8_bytes (reqBody @ (if reqBody \<noteq> [] then [0] else [])) = Inr ?p"
    using a by (auto simp: utf8_bytes_append utf8_char_def)
  then have rq: "OmniLogicRequest mid mtype (reqBody @ (if reqBody \<noteq> [] then [0] else []))
                   (if reqBody \<noteq> [] then 0 else 1) = Inr ?r"
    by (auto simp: OmniLogicRequest_def)
  obtain b where b: "toBytes (now (getSock w)) ?r = Inr b"
    using toBytes_ok [of ?r "now w"] a by (auto simp: getSock_def)
  let ?w = "sendto b (controllerIpAndPort self) (getSock w)"
  obtain w' where w': "waitForData self mid ?w = (Inl TimeoutException, w')"
    "now ?w + responseTimeout self \<le> now w'"
    "now w' < now ?w + responseTimeout self + 1 / 2" "outbox w' = outbox ?w"
    using waitForData_gives_up [of mid self ?w strays late] a
    by (auto simp: sendto_def getSock_def)
  have "sendRequest self mid mtype reqBody (getSock w) = (Inl TimeoutException, w')"
    using rq b w'(1) by (simp add: sendRequest_def Let_def)
  then have "request_reply lib self mid mtype reqBody w = (Inl TimeoutException, w')"
    by (simp add: request_reply_def Let_def)
  then show "\<exists>w'. request_reply lib self mid mtype reqBody w = (Inl TimeoutException, w') \<and>
            now w + responseTimeout self \<le> now w' \<and>
            now w' < now w + responseTimeout self + 1 / 2 \<and>
            length (outbox w') = length (outbox w) + 1"
    using w'(2-4) by (intro exI [of _ w']) (simp add: sendto_def getSock_def)
qed

text \<open>
  Claim C9 fails as stated. With a deadline of 102, no frame with the id 5 arrives in the
  window, and the frame that arrives at 102.05 is returned: the last receive attempt began
  at 101.8. And with a window of 5 seconds, the exchange ends with the \<open>socket.timeout\<close>
  of \<open>_receiveFile\<close> at 100.7, where nothing catches it.
\<close>

theorem late_match_and_receive_timeout_counterexample:
  "waitForData api2 5 w_gap =
     (Inr (5, 0, version_1_19, 1002, 0, 0, 0, 0, []),
      \<lparr>now = 2041 / 20, timeout = Some (1 / 2), inbox = [], outbox = []\<rparr>) \<and>
   now w_gap + responseTimeout api2 = 102 \<and>
   inbox w_gap = [(1003 / 10, dg_stray7), (2041 / 20, dg_ack5)] \<and>
   fst (request_reply lib0 api0 5 300 [] w_slow) = Inl SocketTimeout \<and>
   now (snd (request_reply lib0 api0 5 300 [] w_slow)) = 1007 / 10 \<and>
   now w_slow + responseTimeout api0 = 105 \<and>
   inbox w_slow = [(1002 / 10, dg_ack5), (101, dg_reply7)]"
proof -
  have "waitForData api2 5 w_gap =
     (Inr (5, 0, version_1_19, 1002, 0, 0, 0, 0, []),
      \<lparr>now = 2041 / 20, timeout = Some (1 / 2), inbox = [], outbox = []\<rparr>)"
    by (simp add: waitForData_def waitForData_loop.simps w_gap_def api2_def run_simps)
  moreover have "fst (request_reply lib0 api0 5 300 [] w_slow) = Inl SocketTimeout"
    and "now (snd (request_reply lib0 api0 5 300 [] w_slow)) = 1007 / 10"
    by (simp_all add: exchange_simps w_slow_def)
  moreover have "now w_gap + responseTimeout api2 = 102"
    and "inbox w_gap = [(1003 / 10, dg_stray7), (2041 / 20, dg_ack5)]"
    and "now w_slow + responseTimeout api0 = 105"
    and "inbox w_slow = [(1002 / 10, dg_ack5), (101, dg_reply7)]"
    by (simp_all add: w_gap_def w_slow_def api2_def api0_def)
  ultimately show ?thesis
    by simp
qed

theorem waitForData_times_out_witness:
  "waitForData api2 5 w_late =
     (Inl TimeoutException,
      \<lparr>now = 1021 / 10, timeout = Some (1 / 2), inbox = [(103, dg_ack5)], outbox = []\<rparr>) \<and>
   fst (waitForData api2 5 w_late) \<noteq> Inl SocketTimeout \<and>
   stray 5 (1001 / 10, dg_stray7) \<and>
   fst (request_reply lib0 api2 5 300 [] w_late) = Inl TimeoutException \<and>
   102 \<le> now (snd (request_reply lib0 api2 5 300 [] w_late)) \<and>
   now (snd (request_reply lib0 api2 5 300 [] w_late)) < 102 + 1 / 2"
proof -
  note inst = waitForData_times_out [of api2 5 w_late "[(1001 / 10, dg_stray7)]" "[(103, dg_ack5)]"
      300 "[]" "[]" lib0]
  have s: "stray 5 (1001 / 10, dg_stray7)"
    by (simp add: stray_def fromBytes_dg_stray7 fr_msgId_def)
  have "\<exists>w'. waitForData api2 5 w_late = (Inl TimeoutException, w') \<and>
           102 \<le> now w' \<and> now w' < 102 + 1 / 2"
    using inst s by (auto simp: w_late_def api2_def)
  moreover have run: "waitForData api2 5 w_late =
     (Inl TimeoutException,
      \<lparr>now = 1021 / 10, timeout = Some (1 / 2), inbox = [(103, dg_ack5)], outbox = []\<rparr>)"
    by (simp add: waitForData_def settimeout_def w_late_def api2_def waitForData_loop.simps
        recv_def recvfrom_def fromBytes_dg_stray7 fr_msgId_def)
  moreover have "\<exists>w'. request_reply lib0 api2 5 300 [] w_late = (Inl TimeoutException, w') \<and>
           102 \<le> now w' \<and> now w' < 102 + 1 / 2"
    using inst s by (auto simp: w_late_def api2_def py_int_numeral)
  ultimately show ?thesis
    using inst s by auto
qed

lemma recv_Inl_cases:
  "recv w = (Inl e, w1) \<Longrightarrow>
     outbox w1 = outbox w \<and>
     (inbox w1 = inbox w \<or> (\<exists>p. inbox w = p # inbox w1 \<and> e = StructError))"
  by (auto simp: recv_def recvfrom_def fromBytes_def struct_unpack_def Let_def
      split: option.splits list.splits if_splits prod.splits sum.splits)

lemma utf8_bytes_Inl: "utf8_bytes s = Inl e \<Longrightarrow> e = UnicodeEncodeError"
  by (induction s arbitrary: e) (auto simp: utf8_char_def split: sum.splits if_splits)

lemma toBytes_Inl: "toBytes clock r = Inl e \<Longrightarrow> e = StructError"
  by (auto simp: toBytes_def pack_uint_def split: sum.splits if_splits)

lemma sendAck_Inl:
  "sendAck lib self mid w = (Inl e, w') \<Longrightarrow> w' = w \<and> (e = StructError \<or> e = UnicodeEncodeError)"
  by (auto simp: sendAck_def OmniLogicRequest_def Let_def
      split: sum.splits dest: utf8_bytes_Inl toBytes_Inl)

lemma acked_Nil: "acked lib self res [] []"
  by (simp add: acked_def)

lemma acked_Cons:
  "acks lib self p q \<Longrightarrow> acked lib self res ds as \<Longrightarrow> acked lib self res (p # ds) (q # as)"
  by (auto simp: acked_def)

lemma acked_last:
  "res = Inl StructError \<or> res = Inl UnicodeEncodeError \<Longrightarrow> acked lib self res [p] []"
  by (simp add: acked_def)

lemma acked_result:
  "acked lib self r ds as \<Longrightarrow> (\<And>e. r = Inl e \<Longrightarrow> res = Inl e) \<Longrightarrow> acked lib self res ds as"
  by (auto simp: acked_def)

lemma blocks_all_runs:
  "receiveFile_blocks lib self n acc w = (res, w') \<Longrightarrow>
     \<exists>ds as. inbox w = ds @ inbox w' \<and> outbox w' = outbox w @ as \<and> acked lib self res ds as"
proof (induction n arbitrary: acc w)
  case 0
  then have "inbox w = [] @ inbox w'" and "outbox w' = outbox w @ []"
    by simp_all
  then show ?case
    using acked_Nil by blast
next
  case (Suc n)
  obtain x w1 where rv: "recv w = (x, w1)"
    by (cases "recv w")
  show ?case
  proof (cases x)
    case (Inl e)
    then have res: "res = Inl e" "w' = w1"
      using Suc.prems rv by simp_all
    have o: "outbox w1 = outbox w"
      and c: "inbox w1 = inbox w \<or> (\<exists>p. inbox w = p # inbox w1 \<and> e = StructError)"
      using recv_Inl_cases [of w e w1] rv Inl by simp_all
    from c show ?thesis
    proof
      assume "inbox w1 = inbox w"
      then have "inbox w = [] @ inbox w'" and "outbox w' = outbox w @ []"
        using o res by simp_all
      then show ?thesis
        using acked_Nil by blast
    next
      assume "\<exists>p. inbox w = p # inbox w1 \<and> e = StructError"
      then obtain p where "inbox w = [p] @ inbox w'" and "outbox w' = outbox w @ []"
        and "acked lib self res [p] []"
        using o res acked_last [of res lib self] by auto
      then show ?thesis
        by blast
    qed
  next
    case (Inr f)
    obtain t d where td: "inbox w = (t, d) # inbox w1" "fromBytes (take 65565 d) = Inr f"
      "outbox w1 = outbox w"
      using recv_Inr_cases [of w f w1] rv Inr by auto
    obtain y w2 where sa: "sendAck lib self (fr_msgId f) w1 = (y, w2)"
      by (cases "sendAck lib self (fr_msgId f) w1")
    show ?thesis
    proof (cases y)
      case (Inl e)
      then have res: "res = Inl e" "w' = w2"
        using Suc.prems rv \<open>x = Inr f\<close> sa by simp_all
      have "w2 = w1" and "e = StructError \<or> e = UnicodeEncodeError"
        using sendAck_Inl [of lib self "fr_msgId f" w1 e w2] sa Inl by simp_all
      then have "inbox w = [(t, d)] @ inbox w'" and "outbox w' = outbox w @ []"
        and "acked lib self res [(t, d)] []"
        using td res acked_last [of res lib self] by auto
      then show ?thesis
        by blast
    next
      case (Inr u)
      obtain q where q: "outbox w2 = outbox w1 @ [q]" "acks lib self (t, d) q" "inbox w2 = inbox w1"
        using sendAck_acks [of lib self f w1 u w2 d t] sa Inr td by auto
      have "receiveFile_blocks lib self n (acc @ drop 8 (fr_data f)) w2 = (res, w')"
        using Suc.prems rv \<open>x = Inr f\<close> sa Inr by simp
      then obtain ds as where ds: "inbox w2 = ds @ inbox w'" "outbox w' = outbox w2 @ as"
        "acked lib self res ds as"
        using Suc.IH by blast
      have "inbox w = ((t, d) # ds) @ inbox w'" and "outbox w' = outbox w @ (q # as)"
        and "acked lib self res ((t, d) # ds) (q # as)"
        using ds q td acked_Cons by simp_all
      then show ?thesis
        by blast
    qed
  qed
qed

lemma buffer_all_runs:
  "receiveFile_buffer lib self w = (res, w') \<Longrightarrow>
     \<exists>ds as. inbox w = ds @ inbox w' \<and> outbox w' = outbox w @ as \<and> acked lib self res ds as"
proof -
  assume run: "receiveFile_buffer lib self w = (res, w')"
  obtain x w1 where rv: "recv w = (x, w1)"
    by (cases "recv w")
  show ?thesis
  proof (cases x)
    case (Inl e)
    then have res: "res = Inl e" "w' = w1"
      using run rv by (simp_all add: receiveFile_buffer_def)
    have o: "outbox w1 = outbox w"
      and c: "inbox w1 = inbox w \<or> (\<exists>p. inbox w = p # inbox w1 \<and> e = StructError)"
      using recv_Inl_cases [of w e w1] rv Inl by simp_all
    from c show ?thesis
    proof
      assume "inbox w1 = inbox w"
      then have "inbox w = [] @ inbox w'" and "outbox w' = outbox w @ []"
        using o res by simp_all
      then show ?thesis
        using acked_Nil by blast
    next
      assume "\<exists>p. inbox w = p # inbox w1 \<and> e = StructError"
      then obtain p where "inbox w = [p] @ inbox w'" and "outbox w' = outbox w @ []"
        and "acked lib self res [p] []"
        using o res acked_last [of res lib self] by auto
      then show ?thesis
        by blast
    qed
  next
    case (Inr f)
    obtain mid tstamp vers mtype ctype res1 compressed res3 data
      where f: "f = (mid, tstamp, vers, mtype, ctype, res1, compressed, res3, data)"
      by (rule frame_cases)
    have fid: "fr_msgId f = mid"
      by (simp add: f fr_msgId_def)
    obtain t d where td: "inbox w = (t, d) # inbox w1" "fromBytes (take 65565 d) = Inr f"
      "outbox w1 = outbox w"
      using recv_Inr_cases [of w f w1] rv Inr by auto
    obtain y w2 where sa: "sendAck lib self mid w1 = (y, w2)"
      by (cases "sendAck lib self mid w1")
    show ?thesis
    proof (cases y)
      case (Inl e)
      then have res: "res = Inl e" "w' = w2"
        using run rv \<open>x = Inr f\<close> f sa by (simp_all add: receiveFile_buffer_def)
      have "w2 = w1" and "e = StructError \<or> e = UnicodeEncodeError"
        using sendAck_Inl [of lib self mid w1 e w2] sa Inl by simp_all
      then have "inbox w = [(t, d)] @ inbox w'" and "outbox w' = outbox w @ []"
        and "acked lib self res [(t, d)] []"
        using td res acked_last [of res lib self] by auto
      then show ?thesis
        by blast
    next
      case (Inr u)
      obtain q where q: "outbox w2 = outbox w1 @ [q]" "acks lib self (t, d) q" "inbox w2 = inbox w1"
        using sendAck_acks [of lib self f w1 u w2 d t] sa Inr td fid by auto
      let ?c = "compressed = 1 \<or> mtype = MSP_TELEMETRYUPDATE_MESSAGE_TYPE"
      have rest: "(if mtype = MSP_LEADMESSAGE_MESSAGE_TYPE then
                 (case et_blockCount lib (butlast data) of
                    Inl e \<Rightarrow> (Inl e, w2)
                  | Inr blockCount \<Rightarrow>
                      (case receiveFile_blocks lib self (nat blockCount) [] w2 of
                         (Inl e, w3) \<Rightarrow> (Inl e, w3)
                       | (Inr retval, w3) \<Rightarrow> (Inr (?c, retval), w3)))
               else if ?c then (Inr (?c, data), w2)
               else (Inr (?c, drop 8 data), w2)) = (res, w')"
        using run rv \<open>x = Inr f\<close> f sa Inr by (simp add: receiveFile_buffer_def Let_def)
      have one: "acked lib self res [(t, d)] [q]" for res :: "error + bool \<times> bytes"
        using q(2) by (simp add: acked_def)
      have stop: ?thesis if "w' = w2"
      proof -
        have "inbox w = [(t, d)] @ inbox w'" and "outbox w' = outbox w @ [q]"
          using that td q by simp_all
        then show ?thesis
          using one by blast
      qed
      show ?thesis
      proof (cases "mtype = MSP_LEADMESSAGE_MESSAGE_TYPE")
        case False
        then have "w' = w2"
          using rest by (auto split: if_splits)
        then show ?thesis
          by (rule stop)
      next
        case True
        show ?thesis
        proof (cases "et_blockCount lib (butlast data)")
          case (Inl e)
          then have "w' = w2"
            using rest True by simp
          then show ?thesis
            by (rule stop)
        next
          case (Inr N)
          obtain r3 w3 where bl: "receiveFile_blocks lib self (nat N) [] w2 = (r3, w3)"
            by (cases "receiveFile_blocks lib self (nat N) [] w2")
          then have w3: "w' = w3" and r3: "\<And>e. r3 = Inl e \<Longrightarrow> res = Inl e"
            using rest True Inr by (auto split: sum.splits)
          obtain ds as where ds: "inbox w2 = ds @ inbox w3" "outbox w3 = outbox w2 @ as"
            "acked lib self r3 ds as"
            using blocks_all_runs [OF bl] by blast
          have "acked lib self res ds as"
            using acked_result [OF ds(3)] r3 by blast
          then have "inbox w = ((t, d) # ds) @ inbox w'" and "outbox w' = outbox w @ (q # as)"
            and "acked lib self res ((t, d) # ds) (q # as)"
            using ds q td w3 acked_Cons by simp_all
          then show ?thesis
            by blast
        qed
      qed
    qed
  qed
qed

lemma receiveFile_all_runs:
  "\<exists>ds as. inbox w = ds @ inbox (snd (receiveFile lib self w)) \<and>
           outbox (snd (receiveFile lib self w)) = outbox w @ as \<and>
           acked lib self (fst (receiveFile lib self w)) ds as"
proof -
  obtain r w1 where b: "receiveFile_buffer lib self w = (r, w1)"
    by (cases "receiveFile_buffer lib self w")
  obtain ds as where ds: "inbox w = ds @ inbox w1" "outbox w1 = outbox w @ as"
    "acked lib self r ds as"
    using buffer_all_runs [OF b] by blast
  have w1: "snd (receiveFile lib self w) = w1"
    using b by (auto simp: receiveFile_def split: sum.splits prod.splits)
  have "\<And>e. r = Inl e \<Longrightarrow> fst (receiveFile lib self w) = Inl e"
    using b by (simp add: receiveFile_def)
  then have "acked lib self (fst (receiveFile lib self w)) ds as"
    using acked_result [OF ds(3)] by blast
  then show ?thesis
    using ds w1 by auto
qed

lemma sendRequest_all_runs:
  "outbox (snd (sendRequest self rnd mtype extra w)) = outbox w \<or>
   (\<exists>b rq. outbox (snd (sendRequest self rnd mtype extra w)) =
              outbox w @ [(b, controllerIpAndPort self)] \<and>
           fromBytes b = Inr rq \<and> fr_msgId rq = rnd \<and> fr_msgType rq = mtype)"
proof -
  let ?x = "extra @ (if extra \<noteq> [] then [0] else [])"
  let ?c = "if extra \<noteq> [] then 0 else 1 :: int"
  show ?thesis
  proof (cases "OmniLogicRequest rnd mtype ?x ?c")
    case (Inl e)
    then show ?thesis
      by (simp add: sendRequest_def Let_def)
  next
    case (Inr r)
    then have rf: "msgId r = rnd" "msgType r = mtype" "version r = version_1_19"
      by (auto simp: OmniLogicRequest_def split: sum.splits)
    show ?thesis
    proof (cases "toBytes (now w) r")
      case (Inl e)
      then show ?thesis
        using \<open>OmniLogicRequest rnd mtype ?x ?c = Inr r\<close> by (simp add: sendRequest_def Let_def)
    next
      case b: (Inr b)
      let ?rq = "(msgId r, py_int (now w), version r, msgType r, clientType r,
                  0, 0, 0, extraData r) :: frame"
      have dec: "fromBytes b = Inr ?rq"
        using fromBytes_toBytes [OF b] rf by (simp add: version_1_19_def)
      have rq: "fr_msgId ?rq = rnd" "fr_msgType ?rq = mtype"
        using rf by (simp_all add: fr_msgId_def fr_msgType_def)
      have "outbox (snd (sendRequest self rnd mtype extra w)) =
              outbox (snd (waitForData self rnd (sendto b (controllerIpAndPort self) w)))"
        using \<open>OmniLogicRequest rnd mtype ?x ?c = Inr r\<close> b
        by (simp add: sendRequest_def Let_def split: prod.splits sum.splits)
      then have "outbox (snd (sendRequest self rnd mtype extra w)) =
              outbox w @ [(b, controllerIpAndPort self)]"
        by (simp add: waitForData_outbox sendto_def)
      with dec rq show ?thesis
        by blast
    qed
  qed
qed

text \<open>
  Claim C4, amended. In every exchange, whatever its result, the datagrams sent are the
  request, if it could be encoded, and then one ack for each datagram \<open>_receiveFile\<close> took
  after the wait, in the same order, with that frame's id, type \<open>XMLACK_MESSAGE_TYPE\<close>,
  client type 0 and the \<open>Ack\<close> body; only a last datagram on which decoding or the
  encoding of its ack raised is without one. Nothing is sent for the frame matched by its
  id or for the frames dropped before it: in an exchange that returns a text, these, the
  frames of \<open>_receiveFile\<close> and the acks are all that was received and sent.
\<close>

theorem acks_for_frames_of_receiveFile:
  "(\<exists>sent ds as.
      outbox (snd (request_reply lib self rnd mtype reqBody w)) = outbox w @ sent @ as \<and>
      (sent = [] \<or>
       (\<exists>b rq. sent = [(b, controllerIpAndPort self)] \<and> fromBytes b = Inr rq \<and>
               fr_msgId rq = rnd \<and> fr_msgType rq = mtype)) \<and>
      inbox (snd (sendRequest self rnd mtype reqBody (getSock w))) =
        ds @ inbox (snd (request_reply lib self rnd mtype reqBody w)) \<and>
      acked lib self (fst (request_reply lib self rnd mtype reqBody w)) ds as) \<and>
   (request_reply lib self rnd mtype reqBody w = (Inr txt, w') \<longrightarrow>
      (\<exists>req rq pre m g ds as.
         inbox w = pre @ m # ds @ inbox w' \<and>
         outbox w' = outbox w @ req # as \<and>
         fromBytes (fst req) = Inr rq \<and> fr_msgId rq = rnd \<and> fr_msgType rq = mtype \<and>
         list_all (stray rnd) pre \<and>
         fromBytes (take 65565 (snd m)) = Inr g \<and> fr_msgId g = rnd \<and>
         ds \<noteq> [] \<and> list_all2 (acks lib self) ds as))"
proof (intro conjI impI)
  let ?s = "sendRequest self rnd mtype reqBody (getSock w)"
  let ?r = "request_reply lib self rnd mtype reqBody w"
  obtain x w1 where sr: "?s = (x, w1)"
    by (cases ?s)
  have sent: "outbox w1 = outbox w \<or>
     (\<exists>b rq. outbox w1 = outbox w @ [(b, controllerIpAndPort self)] \<and>
             fromBytes b = Inr rq \<and> fr_msgId rq = rnd \<and> fr_msgType rq = mtype)"
    using sendRequest_all_runs [of self rnd mtype reqBody "getSock w"] sr
    by (simp add: getSock_def)
  then obtain sent where s: "outbox w1 = outbox w @ sent"
    "sent = [] \<or> (\<exists>b rq. sent = [(b, controllerIpAndPort self)] \<and> fromBytes b = Inr rq \<and>
               fr_msgId rq = rnd \<and> fr_msgType rq = mtype)"
    by auto
  have "\<exists>ds as. outbox (snd ?r) = outbox w1 @ as \<and> inbox w1 = ds @ inbox (snd ?r) \<and>
          acked lib self (fst ?r) ds as"
  proof (cases x)
    case (Inl e)
    then have "?r = (Inl e, w1)"
      using sr by (simp add: request_reply_def Let_def)
    then have "outbox (snd ?r) = outbox w1 @ []" and "inbox w1 = [] @ inbox (snd ?r)"
      by simp_all
    then show ?thesis
      using acked_Nil by blast
  next
    case (Inr u)
    then have "?r = receiveFile lib self w1"
      using sr by (simp add: request_reply_def Let_def)
    then show ?thesis
      using receiveFile_all_runs [of w1 lib self] by auto
  qed
  then obtain ds as where "outbox (snd ?r) = outbox w @ sent @ as"
    and "inbox (snd ?s) = ds @ inbox (snd ?r)" and "acked lib self (fst ?r) ds as"
    using s(1) sr by auto
  then show "\<exists>sent ds as.
      outbox (snd ?r) = outbox w @ sent @ as \<and>
      (sent = [] \<or>
       (\<exists>b rq. sent = [(b, controllerIpAndPort self)] \<and> fromBytes b = Inr rq \<and>
               fr_msgId rq = rnd \<and> fr_msgType rq = mtype)) \<and>
      inbox (snd ?s) = ds @ inbox (snd ?r) \<and>
      acked lib self (fst ?r) ds as"
    using s(2) by blast
next
  assume run: "request_reply lib self rnd mtype reqBody w = (Inr txt, w')"
  obtain w1 where sr: "sendRequest self rnd mtype reqBody (getSock w) = (Inr (), w1)"
    and rf: "receiveFile lib self w1 = (Inr txt, w')"
    using request_reply_Inr [OF run] by blast
  obtain b rq pre t d g where m: "outbox w1 = outbox (getSock w) @ [(b, controllerIpAndPort self)]"
    "fromBytes b = Inr rq" "fr_msgId rq = rnd" "fr_msgType rq = mtype"
    "inbox (getSock w) = pre @ (t, d) # inbox w1"
    "list_all (stray rnd) pre" "fromBytes (take 65565 d) = Inr g" "fr_msgId g = rnd"
    using sendRequest_Inr [OF sr] by blast
  obtain c buf where bf: "receiveFile_buffer lib self w1 = (Inr (c, buf), w')"
    using receiveFile_Inr [OF rf] by blast
  obtain t2 d2 ds as where f: "inbox w1 = (t2, d2) # ds @ inbox w'"
    "outbox w' = outbox w1 @ as" "list_all2 (acks lib self) ((t2, d2) # ds) as"
    using buffer_sound [OF bf] by blast
  have "inbox w = pre @ (t, d) # ((t2, d2) # ds) @ inbox w'"
    and "outbox w' = outbox w @ (b, controllerIpAndPort self) # as"
    and "fromBytes (fst (b, controllerIpAndPort self)) = Inr rq"
    and "fromBytes (take 65565 (snd (t, d))) = Inr g"
    and "(t2, d2) # ds \<noteq> []"
    using m f by (simp_all add: getSock_def)
  then show "\<exists>req rq pre m g ds as.
         inbox w = pre @ m # ds @ inbox w' \<and>
         outbox w' = outbox w @ req # as \<and>
         fromBytes (fst req) = Inr rq \<and> fr_msgId rq = rnd \<and> fr_msgType rq = mtype \<and>
         list_all (stray rnd) pre \<and>
         fromBytes (take 65565 (snd m)) = Inr g \<and> fr_msgId g = rnd \<and>
         ds \<noteq> [] \<and> list_all2 (acks lib self) ds as"
    using m(3,4,6,8) f(3) by blast
qed

lemma run_lost:
  "fst (request_reply lib0 api0 5 300 [] w_lost) = Inl SocketTimeout"
  "inbox (snd (sendRequest api0 5 300 [] (getSock w_lost))) =
     [(1003 / 10, dg_lead11), (1004 / 10, dg_block12), (1005 / 10, dg_block13)]"
  "inbox (snd (request_reply lib0 api0 5 300 [] w_lost)) = []"
  by (simp_all add: exchange_simps w_lost_def)

lemma run_lost_outbox:
  "outbox (snd (request_reply lib0 api0 5 300 [] w_lost)) =
     [([0, 0, 0, 5,  0, 0, 0, 0, 0, 0, 0, 100,  0x31, 0x2E, 0x31, 0x39,
        0, 0, 1, 0x2C,  1, 0, 0, 0], (''192.168.1.50'', 10444)),
      ([0, 0, 0, 11,  0, 0, 0, 0, 0, 0, 0, 100,  0x31, 0x2E, 0x31, 0x39,
        0, 0, 0, 0,  0, 0, 0, 0] @ map of_nat ack_xml, (''192.168.1.50'', 10444)),
      ([0, 0, 0, 12,  0, 0, 0, 0, 0, 0, 0, 100,  0x31, 0x2E, 0x31, 0x39,
        0, 0, 0, 0,  0, 0, 0, 0] @ map of_nat ack_xml, (''192.168.1.50'', 10444)),
      ([0, 0, 0, 13,  0, 0, 0, 0, 0, 0, 0, 100,  0x31, 0x2E, 0x31, 0x39,
        0, 0, 0, 0,  0, 0, 0, 0] @ map of_nat ack_xml, (''192.168.1.50'', 10444))]"
  by (simp add: exchange_simps w_lost_def be_bytes_numeral pack_s_def version_1_19_def)

lemma run_lost_sent:
  "map (fromBytes \<circ> fst) (outbox (snd (request_reply lib0 api0 5 300 [] w_lost))) =
     [Inr (5, 100, version_1_19, 300, 1, 0, 0, 0, []),
      Inr (11, 100, version_1_19, 0, 0, 0, 0, 0, map of_nat ack_xml),
      Inr (12, 100, version_1_19, 0, 0, 0, 0, 0, map of_nat ack_xml),
      Inr (13, 100, version_1_19, 0, 0, 0, 0, 0, map of_nat ack_xml)]"
  by (simp add: run_lost_outbox fromBytes_def struct_unpack_def be_int_def version_1_19_def)

theorem acks_for_frames_of_receiveFile_witness:
  "fst (request_reply lib0 api0 5 300 [] w_lost) = Inl SocketTimeout \<and>
   map (fromBytes \<circ> fst) (outbox (snd (request_reply lib0 api0 5 300 [] w_lost))) =
     [Inr (5, 100, version_1_19, 300, 1, 0, 0, 0, []),
      Inr (11, 100, version_1_19, 0, 0, 0, 0, 0, map of_nat ack_xml),
      Inr (12, 100, version_1_19, 0, 0, 0, 0, 0, map of_nat ack_xml),
      Inr (13, 100, version_1_19, 0, 0, 0, 0, 0, map of_nat ack_xml)] \<and>
   (\<exists>sent as.
      outbox (snd (request_reply lib0 api0 5 300 [] w_lost)) = outbox w_lost @ sent @ as \<and>
      (sent = [] \<or>
       (\<exists>b rq. sent = [(b, controllerIpAndPort api0)] \<and> fromBytes b = Inr rq \<and>
               fr_msgId rq = 5 \<and> fr_msgType rq = 300)) \<and>
      list_all2 (acks lib0 api0)
        [(1003 / 10, dg_lead11), (1004 / 10, dg_block12), (1005 / 10, dg_block13)] as) \<and>
   fst (request_reply lib0 api0 5 300 [] w_lead_exchange) = Inr [72, 101, 108, 108, 111, 33] \<and>
   (\<exists>req rq pre m g ds as.
      inbox w_lead_exchange =
        pre @ m # ds @ inbox (snd (request_reply lib0 api0 5 300 [] w_lead_exchange)) \<and>
      outbox (snd (request_reply lib0 api0 5 300 [] w_lead_exchange)) =
        outbox w_lead_exchange @ req # as \<and>
      fromBytes (fst req) = Inr rq \<and> fr_msgId rq = 5 \<and> fr_msgType rq = 300 \<and>
      list_all (stray 5) pre \<and>
      fromBytes (take 65565 (snd m)) = Inr g \<and> fr_msgId g = 5 \<and>
      ds \<noteq> [] \<and> list_all2 (acks lib0 api0) ds as)"
proof -
  have run: "request_reply lib0 api0 5 300 [] w_lead_exchange =
      (Inr [72, 101, 108, 108, 111, 33], snd (request_reply lib0 api0 5 300 [] w_lead_exchange))"
    using run_lead_exchange(1) by (simp add: prod_eq_iff)
  note inst = acks_for_frames_of_receiveFile [of lib0 api0 5 300 "[]" w_lost]
  obtain sent ds as where a:
    "outbox (snd (request_reply lib0 api0 5 300 [] w_lost)) = outbox w_lost @ sent @ as"
    "sent = [] \<or>
       (\<exists>b rq. sent = [(b, controllerIpAndPort api0)] \<and> fromBytes b = Inr rq \<and>
               fr_msgId rq = 5 \<and> fr_msgType rq = 300)"
    "inbox (snd (sendRequest api0 5 300 [] (getSock w_lost))) =
        ds @ inbox (snd (request_reply lib0 api0 5 300 [] w_lost))"
    "acked lib0 api0 (fst (request_reply lib0 api0 5 300 [] w_lost)) ds as"
    using inst by blast
  have ds: "ds = [(1003 / 10, dg_lead11), (1004 / 10, dg_block12), (1005 / 10, dg_block13)]"
    using a(3) run_lost(2,3) by simp
  have "list_all2 (acks lib0 api0) ds as"
    using a(4) run_lost(1) by (simp add: acked_def)
  then have lost: "\<exists>sent as.
      outbox (snd (request_reply lib0 api0 5 300 [] w_lost)) = outbox w_lost @ sent @ as \<and>
      (sent = [] \<or>
       (\<exists>b rq. sent = [(b, controllerIpAndPort api0)] \<and> fromBytes b = Inr rq \<and>
               fr_msgId rq = 5 \<and> fr_msgType rq = 300)) \<and>
      list_all2 (acks lib0 api0)
        [(1003 / 10, dg_lead11), (1004 / 10, dg_block12), (1005 / 10, dg_block13)] as"
    using a(1,2) ds by blast
  have ok: "\<exists>req rq pre m g ds as.
      inbox w_lead_exchange =
        pre @ m # ds @ inbox (snd (request_reply lib0 api0 5 300 [] w_lead_exchange)) \<and>
      outbox (snd (request_reply lib0 api0 5 300 [] w_lead_exchange)) =
        outbox w_lead_exchange @ req # as \<and>
      fromBytes (fst req) = Inr rq \<and> fr_msgId rq = 5 \<and> fr_msgType rq = 300 \<and>
      list_all (stray 5) pre \<and>
      fromBytes (take 65565 (snd m)) = Inr g \<and> fr_msgId g = 5 \<and>
      ds \<noteq> [] \<and> list_all2 (acks lib0 api0) ds as"
    using acks_for_frames_of_receiveFile [of lib0 api0 5 300 "[]" w_lead_exchange
        "[72, 101, 108, 108, 111, 33]" "snd (request_reply lib0 api0 5 300 [] w_lead_exchange)"]
      run by blast
  show ?thesis
    using run_lost(1) run_lost_sent lost ok run_lead_exchange(1) by simp
qed

end
